theory Spec2Isabelle
  imports Main "HOL-Library.Sublist"
begin

section \<open>The syntax tree\<close>

text \<open>
  The pass works on the tree of the TypeScript compiler. Only the node kinds the pass
  looks at, or creates, are spelled out. Every expression node carries the source text
  that \<open>getText()\<close> returns for it; a node made by the factory has no source text
  (\<open>[]\<close>). The parts of a function the pass copies without looking at them
  (decorators, modifiers, asterisk token, type parameters, parameters, return type) are
  one opaque value \<open>fn_head\<close>; so are the modifiers of a variable statement and the
  exclamation token and type of a declaration. Nodes are compared by their structure:
  the position of a node in the source text is not part of it. (Which statements of the
  output are nodes of the source file, and which are made by the factory, is kept apart,
  in \<open>transformNodes\<close> below.)
\<close>

type_synonym fn_head = string

datatype node_flags = NoFlags | LetFlag | ConstFlag

datatype import_bindings =
    NamespaceImport string
  | NamedImports "string list"

datatype import_clause = ImportClause "string option" "import_bindings option"

datatype expr = Node (getText: string) (kind: expr_kind)
and expr_kind =
    Identifier string
  | UniqueName string nat
  | BindingPattern
  | PropertyAccessExpression expr string
  | CallExpression expr "expr list"
  | FunctionExpression fn_head "stmt list"
  | ArrowFunction fn_head concise_body
  | StringLiteral string
  | TrueKeyword
  | FalseKeyword
  | ArrayLiteralExpression "expr list"
  | OtherExpression
and concise_body =
    Block "stmt list"
  | ExpressionBody expr
and stmt =
    FunctionDeclaration fn_head "string option" "stmt list option"
  | VariableStatement string node_flags "var_decl list"
  | ImportDeclaration "import_clause option"
  | ExpressionStatement expr
  | ReturnStatement "expr option"
  | OtherStatement string
and var_decl =
    VariableDeclaration (decl_name: expr) (decl_type: string) (initializer: "expr option")

text \<open>
  \<open>NamedImports\<close> lists the local name (\<open>specifier.name.text\<close>) of each import
  specifier. The name of a function declaration, of an import and of a property access is
  an \<open>Identifier\<close> node by the compiler's types; it is kept as its \<open>text\<close>, and
  \<open>identifierNode\<close> is the node itself.
\<close>

definition identifierNode :: "string \<Rightarrow> expr" where
  "identifierNode t = Node t (Identifier t)"

text \<open>
  A source file: its top-level statements, and for the position of each statement (its
  index) the texts of the comment ranges \<open>ts.getLeadingCommentRanges\<close> finds before it.
\<close>

record source_file =
  statements :: "stmt list"
  leadingCommentRanges :: "nat \<Rightarrow> string list"

subsection \<open>The node factory\<close>

definition createIdentifier :: "string \<Rightarrow> expr" where
  "createIdentifier t = Node [] (Identifier t)"

definition createUniqueName :: "string \<Rightarrow> nat \<Rightarrow> expr" where
  "createUniqueName t n = Node [] (UniqueName t n)"

definition createStringLiteral :: "string \<Rightarrow> expr" where
  "createStringLiteral t = Node [] (StringLiteral t)"

fun createStringLiteralFromNode :: "expr \<Rightarrow> expr" where
  "createStringLiteralFromNode (Node _ (Identifier t)) = createStringLiteral t"
| "createStringLiteralFromNode (Node _ (UniqueName t _)) = createStringLiteral t"
| "createStringLiteralFromNode (Node _ (StringLiteral t)) = createStringLiteral t"
| "createStringLiteralFromNode (Node t _) = createStringLiteral t"

definition createTrue :: expr where
  "createTrue = Node [] TrueKeyword"

definition createFalse :: expr where
  "createFalse = Node [] FalseKeyword"

definition createCall :: "expr \<Rightarrow> expr list \<Rightarrow> expr" where
  "createCall e args = Node [] (CallExpression e args)"

definition createArrayLiteral :: "expr list \<Rightarrow> expr" where
  "createArrayLiteral es = Node [] (ArrayLiteralExpression es)"

definition createFunctionExpression :: "fn_head \<Rightarrow> stmt list \<Rightarrow> expr" where
  "createFunctionExpression h b = Node [] (FunctionExpression h b)"

definition createArrowFunction :: "fn_head \<Rightarrow> stmt list \<Rightarrow> expr" where
  "createArrowFunction h b = Node [] (ArrowFunction h (Block b))"

definition createExpressionStatement :: "expr \<Rightarrow> stmt" where
  "createExpressionStatement e = ExpressionStatement e"

definition createReturn :: "expr \<Rightarrow> stmt" where
  "createReturn e = ReturnStatement (Some e)"

definition createVariableDeclaration :: "expr \<Rightarrow> string \<Rightarrow> expr \<Rightarrow> var_decl" where
  "createVariableDeclaration n t i = VariableDeclaration n t (Some i)"

definition createVariableStatement :: "string \<Rightarrow> var_decl list \<Rightarrow> node_flags \<Rightarrow> stmt" where
  "createVariableStatement m ds fl = VariableStatement m fl ds"

definition refreshSig :: string where
  "refreshSig = ''$RefreshSig$''"

definition refreshReg :: string where
  "refreshReg = ''$RefreshReg$''"

section \<open>Names\<close>

definition isUpper :: "char \<Rightarrow> bool" where
  "isUpper c = (65 \<le> (of_char c :: nat) \<and> (of_char c :: nat) \<le> 90)"

definition isComponentishName :: "string \<Rightarrow> bool" where
  "isComponentishName n = (case n of [] \<Rightarrow> False | c # _ \<Rightarrow> isUpper c)"

definition isHookName :: "string \<Rightarrow> bool" where
  "isHookName n = (take 3 n = ''use'' \<and> (case drop 3 n of [] \<Rightarrow> False | c # _ \<Rightarrow> isUpper c))"

definition isBuiltinHook :: "string \<Rightarrow> bool" where
  "isBuiltinHook hookName = (hookName \<in> set
     [''useState'', ''React.useState'', ''useReducer'', ''React.useReducer'',
      ''useEffect'', ''React.useEffect'', ''useLayoutEffect'', ''React.useLayoutEffect'',
      ''useMemo'', ''React.useMemo'', ''useCallback'', ''React.useCallback'',
      ''useRef'', ''React.useRef'', ''useContext'', ''React.useContext'',
      ''useImperativeMethods'', ''React.useImperativeMethods'',
      ''useDebugValue'', ''React.useDebugValue''])"

section \<open>Hook-call analysis\<close>

record hook_call =
  hook_name :: string
  hook_key :: string

record hook_calls_signature =
  sig_key :: string
  sig_customHooks :: "string list"

text \<open>\<open>ctx.parent\<close> of a call: the tree has no parent pointers, the caller passes it.\<close>

datatype parent_node =
    ParentDeclaration var_decl
  | ParentStatement stmt

datatype TSFunctionLike =
    Declaration stmt
  | Initializer expr

fun isCallExpression :: "expr \<Rightarrow> bool" where
  "isCallExpression (Node _ (CallExpression _ _)) = True"
| "isCallExpression _ = False"

fun isFunctionExpression :: "expr \<Rightarrow> bool" where
  "isFunctionExpression (Node _ (FunctionExpression _ _)) = True"
| "isFunctionExpression _ = False"

fun isArrowFunction :: "expr \<Rightarrow> bool" where
  "isArrowFunction (Node _ (ArrowFunction _ _)) = True"
| "isArrowFunction _ = False"

text \<open>\<open>ts.isIdentifier(n)\<close> together with \<open>n.text\<close>.\<close>

fun identifierText :: "expr \<Rightarrow> string option" where
  "identifierText (Node _ (Identifier t)) = Some t"
| "identifierText (Node _ (UniqueName t _)) = Some t"
| "identifierText _ = None"

fun calleeName :: "expr \<Rightarrow> string option" where
  "calleeName (Node _ (Identifier t)) = Some t"
| "calleeName (Node _ (UniqueName t _)) = Some t"
| "calleeName (Node _ (PropertyAccessExpression _ n)) = Some n"
| "calleeName _ = None"

fun bindingKey :: "parent_node \<Rightarrow> string" where
  "bindingKey (ParentDeclaration d) = getText (decl_name d)"
| "bindingKey (ParentStatement _) = []"

definition argKeyFragment :: "string \<Rightarrow> expr list \<Rightarrow> string" where
  "argKeyFragment n args =
     (if n = ''useState'' \<and> length args > 0 then ''('' @ getText (args ! 0) @ '')''
      else if n = ''useReducer'' \<and> length args > 1 then ''('' @ getText (args ! 1) @ '')''
      else [])"

fun getHookCallSignature :: "parent_node \<Rightarrow> expr \<Rightarrow> hook_call option" where
  "getHookCallSignature parent (Node _ (CallExpression expression args)) =
     (case calleeName expression of
        None \<Rightarrow> None
      | Some n \<Rightarrow>
          if \<not> isHookName n then None
          else Some \<lparr>hook_name = n, hook_key = bindingKey parent @ argKeyFragment n args\<rparr>)"
| "getHookCallSignature parent _ = None"

definition declarationHookCalls :: "var_decl \<Rightarrow> hook_call list" where
  "declarationHookCalls d =
     (case initializer d of
        None \<Rightarrow> []
      | Some i \<Rightarrow>
          if isCallExpression i
          then (case getHookCallSignature (ParentDeclaration d) i of
                  None \<Rightarrow> [] | Some sig \<Rightarrow> [sig])
          else [])"

fun statementHookCalls :: "stmt \<Rightarrow> hook_call list" where
  "statementHookCalls (VariableStatement m fl ds) = concat (map declarationHookCalls ds)"
| "statementHookCalls (ExpressionStatement e) =
     (if isCallExpression e
      then (case getHookCallSignature (ParentStatement (ExpressionStatement e)) e of
              None \<Rightarrow> [] | Some sig \<Rightarrow> [sig])
      else [])"
| "statementHookCalls _ = []"

text \<open>\<open>fnNode.body && ts.isBlock(fnNode.body)\<close>: the statements of a block body.\<close>

fun blockBody :: "TSFunctionLike \<Rightarrow> stmt list option" where
  "blockBody (Declaration (FunctionDeclaration _ _ b)) = b"
| "blockBody (Initializer (Node _ (FunctionExpression _ b))) = Some b"
| "blockBody (Initializer (Node _ (ArrowFunction _ (Block b)))) = Some b"
| "blockBody _ = None"

fun join :: "string \<Rightarrow> string list \<Rightarrow> string" where
  "join sep [] = []"
| "join sep [x] = x"
| "join sep (x # y # ys) = x @ sep @ join sep (y # ys)"

definition lineBreak :: string where
  "lineBreak = [CHR 0x0A]"

definition hookCallKey :: "hook_call \<Rightarrow> string" where
  "hookCallKey c = hook_name c @ ''{'' @ hook_key c @ ''}''"

definition bodyHookCalls :: "TSFunctionLike \<Rightarrow> hook_call list" where
  "bodyHookCalls fnNode =
     (case blockBody fnNode of None \<Rightarrow> [] | Some b \<Rightarrow> concat (map statementHookCalls b))"

definition getHookCallsSignature :: "TSFunctionLike \<Rightarrow> hook_calls_signature option" where
  "getHookCallsSignature fnNode =
     (let calls = bodyHookCalls fnNode in
      if length calls = 0 then None
      else Some \<lparr>sig_key = join lineBreak (map hookCallKey calls),
                 sig_customHooks =
                   map hook_name (filter (\<lambda>c. \<not> isBuiltinHook (hook_name c)) calls)\<rparr>)"

section \<open>The transform\<close>

text \<open>
  The entries of the \<open>hookCalls\<close> weak map are keyed by the identity of a function
  node. A function node of the source file is identified by its place: the index of its
  top-level statement and, for an initializer, the index of its declaration in the
  declaration list (0 for a function declaration). \<open>createUniqueName\<close> gives each
  signature an identifier of its own; it is numbered by the signatures made so far.
\<close>

record hook_calls_entry = hook_calls_signature +
  sig_id :: expr

record scan_state =
  components :: "expr list"
  signatures :: "expr list"
  hookCalls :: "nat \<times> nat \<Rightarrow> hook_calls_entry option"
  seenHooks :: "string set"

datatype error = TypeError

definition noteName :: "string \<Rightarrow> expr \<Rightarrow> scan_state \<Rightarrow> scan_state" where
  "noteName t n st =
     (let st1 = (if isComponentishName t then st\<lparr>components := components st @ [n]\<rparr> else st)
      in if isHookName t then st1\<lparr>seenHooks := insert t (seenHooks st1)\<rparr> else st1)"

definition noteSignature ::
  "nat \<times> nat \<Rightarrow> hook_calls_signature option \<Rightarrow> scan_state \<Rightarrow> scan_state" where
  "noteSignature k hookCallsSignature st =
     (case hookCallsSignature of
        None \<Rightarrow> st
      | Some sg \<Rightarrow>
          let i = createUniqueName ''_s'' (length (signatures st))
          in st\<lparr>signatures := signatures st @ [i],
                hookCalls := (hookCalls st)(k \<mapsto>
                   \<lparr>sig_key = sig_key sg, sig_customHooks = sig_customHooks sg, sig_id = i\<rparr>)\<rparr>)"

definition scanDeclaration :: "nat \<Rightarrow> nat \<times> var_decl \<Rightarrow> scan_state \<Rightarrow> scan_state" where
  "scanDeclaration i jd st =
     (case (initializer (snd jd), identifierText (decl_name (snd jd))) of
        (Some init, Some t) \<Rightarrow>
          if isFunctionExpression init \<or> isArrowFunction init
          then noteSignature (i, fst jd) (getHookCallsSignature (Initializer init))
                 (noteName t (decl_name (snd jd)) st)
          else st
      | _ \<Rightarrow> st)"

definition scanImport :: "import_clause option \<Rightarrow> scan_state \<Rightarrow> scan_state" where
  "scanImport c st =
     (case c of
        None \<Rightarrow> st
      | Some (ImportClause n namedBindings) \<Rightarrow>
          let st1 = (case n of
                       None \<Rightarrow> st
                     | Some t \<Rightarrow> if isHookName t
                                then st\<lparr>seenHooks := insert t (seenHooks st)\<rparr> else st)
          in (case namedBindings of
                Some (NamedImports ns) \<Rightarrow>
                  st1\<lparr>seenHooks := seenHooks st1 \<union> set (filter isHookName ns)\<rparr>
              | _ \<Rightarrow> st1))"

fun scanStatement :: "nat \<times> stmt \<Rightarrow> scan_state \<Rightarrow> scan_state" where
  "scanStatement (i, FunctionDeclaration h n b) st =
     noteSignature (i, 0) (getHookCallsSignature (Declaration (FunctionDeclaration h n b)))
       (case n of None \<Rightarrow> st | Some t \<Rightarrow> noteName t (identifierNode t) st)"
| "scanStatement (i, VariableStatement m fl ds) st =
     fold (scanDeclaration i) (enumerate 0 ds) st"
| "scanStatement (i, ImportDeclaration c) st = scanImport c st"
| "scanStatement (i, _) st = st"

definition scan :: "source_file \<Rightarrow> scan_state" where
  "scan sf = fold scanStatement (enumerate 0 (statements sf))
     \<lparr>components = [], signatures = [], hookCalls = Map.empty, seenHooks = {}\<rparr>"

subsection \<open>Signing a function\<close>

definition getCustomHooks :: "string list \<Rightarrow> expr" where
  "getCustomHooks customHooks =
     createFunctionExpression [] [createReturn (createArrayLiteral (map createIdentifier customHooks))]"

definition sign_s :: "string \<Rightarrow> expr \<Rightarrow> string \<Rightarrow> bool \<Rightarrow> string list \<Rightarrow> stmt" where
  "sign_s fnName sigId k forceReset customHooks =
     createExpressionStatement (createCall sigId
       ([createIdentifier fnName, createStringLiteral k] @
        (if forceReset \<or> length customHooks > 0
         then [if forceReset then createTrue else createFalse] @
              (if length customHooks > 0 then [getCustomHooks customHooks] else [])
         else [])))"

definition signedBlock :: "expr \<Rightarrow> stmt list \<Rightarrow> stmt list" where
  "signedBlock sigId body = createExpressionStatement (createCall sigId []) # body"

fun sign ::
  "TSFunctionLike \<Rightarrow> string \<Rightarrow> expr \<Rightarrow> string \<Rightarrow> bool \<Rightarrow> string list \<Rightarrow>
     (TSFunctionLike \<times> stmt) option" where
  "sign (Declaration (FunctionDeclaration h n (Some body))) fnName sigId k forceReset customHooks =
     Some (Declaration (FunctionDeclaration h n (Some (signedBlock sigId body))),
           sign_s fnName sigId k forceReset customHooks)"
| "sign (Initializer (Node _ (FunctionExpression h body))) fnName sigId k forceReset customHooks =
     Some (Initializer (createFunctionExpression h (signedBlock sigId body)),
           sign_s fnName sigId k forceReset customHooks)"
| "sign (Initializer (Node _ (ArrowFunction h (Block body)))) fnName sigId k forceReset customHooks =
     Some (Initializer (createArrowFunction h (signedBlock sigId body)),
           sign_s fnName sigId k forceReset customHooks)"
| "sign _ fnName sigId k forceReset customHooks = None"

subsection \<open>Rewriting\<close>

fun stringIncludes :: "string \<Rightarrow> string \<Rightarrow> bool" where
  "stringIncludes [] sub = (sub = [])"
| "stringIncludes (c # cs) sub = (take (length sub) (c # cs) = sub \<or> stringIncludes cs sub)"

text \<open>
  An element of the \<open>statements\<close> array: a statement of the source file with its index,
  or a statement the pass has made (no position, no comments, no entry in \<open>hookCalls\<close>).
\<close>

type_synonym located = "nat option \<times> stmt"

definition forceResetComment :: "source_file \<Rightarrow> nat option \<Rightarrow> bool" where
  "forceResetComment sf p =
     (case p of
        None \<Rightarrow> False
      | Some i \<Rightarrow> length (filter (\<lambda>c. stringIncludes c ''@refresh reset'') (leadingCommentRanges sf i)) \<noteq> 0)"

definition hookCallsGet :: "scan_state \<Rightarrow> nat option \<Rightarrow> nat \<Rightarrow> hook_calls_entry option" where
  "hookCallsGet st p j = (case p of None \<Rightarrow> None | Some i \<Rightarrow> hookCalls st (i, j))"

definition rewriteDeclaration ::
  "scan_state \<Rightarrow> bool \<Rightarrow> nat option \<Rightarrow> nat \<times> var_decl \<Rightarrow> error + var_decl \<times> stmt list" where
  "rewriteDeclaration st frc p jd =
     (case (initializer (snd jd), identifierText (decl_name (snd jd))) of
        (Some init, Some t) \<Rightarrow>
          if isFunctionExpression init \<or> isArrowFunction init
          then (case hookCallsGet st p (fst jd) of
                  None \<Rightarrow> Inr (snd jd, [])
                | Some e \<Rightarrow>
                    let customHooks' = filter (\<lambda>n. n \<in> seenHooks st) (sig_customHooks e)
                    in (case sign (Initializer init) t (sig_id e) (sig_key e)
                               (frc \<or> length customHooks' \<noteq> length (sig_customHooks e)) customHooks' of
                          Some (Initializer init', s) \<Rightarrow>
                            Inr (createVariableDeclaration (decl_name (snd jd)) (decl_type (snd jd)) init', [s])
                        | _ \<Rightarrow> Inl TypeError))
          else Inr (snd jd, [])
      | _ \<Rightarrow> Inr (snd jd, []))"

fun sequence :: "('e + 'a) list \<Rightarrow> 'e + 'a list" where
  "sequence [] = Inr []"
| "sequence (x # xs) =
     (case x of
        Inl e \<Rightarrow> Inl e
      | Inr y \<Rightarrow> (case sequence xs of Inl e \<Rightarrow> Inl e | Inr ys \<Rightarrow> Inr (y # ys)))"

text \<open>
  \<open>node.name!.text\<close> of a function declaration without a name raises a TypeError.
  Where \<open>_sign\<close> returns \<open>undefined\<close>, the code fails to destructure it (for an
  initializer) or goes on with an undefined statement (for a function declaration): both
  are the error value here.
\<close>

fun rewriteStatement :: "source_file \<Rightarrow> scan_state \<Rightarrow> located \<Rightarrow> error + stmt list" where
  "rewriteStatement sf st (p, FunctionDeclaration h n b) =
     (case hookCallsGet st p 0 of
        None \<Rightarrow> Inr [FunctionDeclaration h n b]
      | Some e \<Rightarrow>
          let customHooks' = filter (\<lambda>n. n \<in> seenHooks st) (sig_customHooks e)
          in (case n of
                None \<Rightarrow> Inl TypeError
              | Some t \<Rightarrow>
                  (case sign (Declaration (FunctionDeclaration h n b)) t (sig_id e) (sig_key e)
                          (forceResetComment sf p \<or> length customHooks' \<noteq> length (sig_customHooks e))
                          customHooks' of
                     Some (Declaration d, s) \<Rightarrow> Inr [d, s]
                   | _ \<Rightarrow> Inl TypeError)))"
| "rewriteStatement sf st (p, VariableStatement m fl ds) =
     (case sequence (map (rewriteDeclaration st (forceResetComment sf p) p) (enumerate 0 ds)) of
        Inl e \<Rightarrow> Inl e
      | Inr rs \<Rightarrow> Inr (createVariableStatement m (map fst rs) fl # concat (map snd rs)))"
| "rewriteStatement sf st (p, s) = Inr [s]"

definition registration :: "expr \<Rightarrow> stmt" where
  "registration n =
     createExpressionStatement
       (createCall (createIdentifier refreshReg) [n, createStringLiteralFromNode n])"

definition signatureDeclarations :: "expr list \<Rightarrow> stmt" where
  "signatureDeclarations ids =
     createVariableStatement []
       (map (\<lambda>i. createVariableDeclaration i [] (createCall (createIdentifier refreshSig) [])) ids)
       ConstFlag"

definition transform :: "source_file \<Rightarrow> error + stmt list" where
  "transform sf =
     (let st = scan sf;
          statements1 = map (\<lambda>(i, s). (Some i, s)) (enumerate 0 (statements sf));
          statements2 = statements1 @ map (\<lambda>n. (None, registration n)) (components st);
          statements3 =
            (if length (signatures st) > 0
             then (None, signatureDeclarations (signatures st)) # statements2
             else statements2)
      in (case sequence (map (rewriteStatement sf st) statements3) of
            Inl e \<Rightarrow> Inl e
          | Inr bs \<Rightarrow> Inr (concat bs)))"

section \<open>What each statement contributes to the scan\<close>

definition entrySignature :: "hook_calls_entry \<Rightarrow> hook_calls_signature" where
  "entrySignature e = \<lparr>sig_key = sig_key e, sig_customHooks = sig_customHooks e\<rparr>"

definition declarationSignature :: "var_decl \<Rightarrow> hook_calls_signature option" where
  "declarationSignature d =
     (case (initializer d, identifierText (decl_name d)) of
        (Some init, Some t) \<Rightarrow>
          if isFunctionExpression init \<or> isArrowFunction init
          then getHookCallsSignature (Initializer init) else None
      | _ \<Rightarrow> None)"

fun statementSignature :: "stmt \<Rightarrow> nat \<Rightarrow> hook_calls_signature option" where
  "statementSignature (FunctionDeclaration h n b) j =
     (if j = 0 then getHookCallsSignature (Declaration (FunctionDeclaration h n b)) else None)"
| "statementSignature (VariableStatement m fl ds) j =
     (if j < length ds then declarationSignature (ds ! j) else None)"
| "statementSignature _ j = None"

definition declarationComponents :: "var_decl \<Rightarrow> expr list" where
  "declarationComponents d =
     (case (initializer d, identifierText (decl_name d)) of
        (Some init, Some t) \<Rightarrow>
          if (isFunctionExpression init \<or> isArrowFunction init) \<and> isComponentishName t
          then [decl_name d] else []
      | _ \<Rightarrow> [])"

fun statementComponents :: "stmt \<Rightarrow> expr list" where
  "statementComponents (FunctionDeclaration h (Some t) b) =
     (if isComponentishName t then [identifierNode t] else [])"
| "statementComponents (VariableStatement m fl ds) = concat (map declarationComponents ds)"
| "statementComponents _ = []"

definition located :: "source_file \<Rightarrow> located list" where
  "located sf = map (\<lambda>(i, s). (Some i, s)) (enumerate 0 (statements sf))"

definition sigs :: "scan_state \<Rightarrow> nat \<times> nat \<Rightarrow> hook_calls_signature option" where
  "sigs st k = map_option entrySignature (hookCalls st k)"

text \<open>
  The functions the scanner looks at: the one a top-level statement defines at place
  \<open>j\<close> (0 for a function declaration, the index of the declaration in a variable
  statement), with the name the rewrite passes to \<open>_sign\<close>.
\<close>

definition declaredFunction :: "var_decl \<Rightarrow> (string \<times> TSFunctionLike) option" where
  "declaredFunction d =
     (case (initializer d, identifierText (decl_name d)) of
        (Some init, Some t) \<Rightarrow>
          if isFunctionExpression init \<or> isArrowFunction init
          then Some (t, Initializer init) else None
      | _ \<Rightarrow> None)"

fun definedFunction :: "stmt \<Rightarrow> nat \<Rightarrow> (string \<times> TSFunctionLike) option" where
  "definedFunction (FunctionDeclaration h (Some t) b) j =
     (if j = 0 then Some (t, Declaration (FunctionDeclaration h (Some t) b)) else None)"
| "definedFunction (VariableStatement m fl ds) j =
     (if j < length ds then declaredFunction (ds ! j) else None)"
| "definedFunction _ j = None"

text \<open>The signatures of the functions a top-level statement defines, in order.\<close>

definition declarationSignatures :: "var_decl \<Rightarrow> hook_calls_signature list" where
  "declarationSignatures d = (case declarationSignature d of None \<Rightarrow> [] | Some sg \<Rightarrow> [sg])"

fun statementSignatures :: "stmt \<Rightarrow> hook_calls_signature list" where
  "statementSignatures (FunctionDeclaration h n b) =
     (case getHookCallsSignature (Declaration (FunctionDeclaration h n b)) of
        None \<Rightarrow> [] | Some sg \<Rightarrow> [sg])"
| "statementSignatures (VariableStatement m fl ds) = concat (map declarationSignatures ds)"
| "statementSignatures _ = []"

text \<open>
  The hook names a top-level statement declares or imports: the name of a function
  declaration, the name of a declaration with a function initializer, the default
  import and the named imports.
\<close>

definition declarationHooks :: "var_decl \<Rightarrow> string set" where
  "declarationHooks d =
     (case (initializer d, identifierText (decl_name d)) of
        (Some init, Some t) \<Rightarrow>
          if (isFunctionExpression init \<or> isArrowFunction init) \<and> isHookName t
          then {t} else {}
      | _ \<Rightarrow> {})"

fun importHooks :: "import_clause option \<Rightarrow> string set" where
  "importHooks None = {}"
| "importHooks (Some (ImportClause n b)) =
     (case n of None \<Rightarrow> {} | Some t \<Rightarrow> if isHookName t then {t} else {}) \<union>
     (case b of Some (NamedImports ns) \<Rightarrow> set (filter isHookName ns) | _ \<Rightarrow> {})"

fun statementHooks :: "stmt \<Rightarrow> string set" where
  "statementHooks (FunctionDeclaration h (Some t) b) = (if isHookName t then {t} else {})"
| "statementHooks (VariableStatement m fl ds) = (\<Union>d\<in>set ds. declarationHooks d)"
| "statementHooks (ImportDeclaration c) = importHooks c"
| "statementHooks _ = {}"

definition hookNames :: "source_file \<Rightarrow> string set" where
  "hookNames sf = (\<Union>s\<in>set (statements sf). statementHooks s)"

section \<open>The statements the rewrite adds, spelled out\<close>

text \<open>
  The calls and declarations the claims speak of, written with the factory and with
  nothing of the transform: the call of a signature identifier without arguments; the
  function literal that returns the custom hooks; the recording call of a signature
  identifier with the function, the key, the forceReset flag (left out when it is false
  and there are no custom hooks) and that function literal (left out when there are no
  custom hooks); the declaration of \<open>n\<close> signature identifiers; the registration call
  of a component; and a leading comment range that contains \<open>@refresh reset\<close>.
\<close>

abbreviation signatureCall :: "expr \<Rightarrow> stmt" where
  "signatureCall sigId \<equiv> createExpressionStatement (createCall sigId [])"

abbreviation customHooksGetter :: "string list \<Rightarrow> expr" where
  "customHooksGetter hs \<equiv>
     createFunctionExpression [] [createReturn (createArrayLiteral (map createIdentifier hs))]"

abbreviation recordingCall :: "string \<Rightarrow> expr \<Rightarrow> string \<Rightarrow> bool \<Rightarrow> string list \<Rightarrow> stmt" where
  "recordingCall t sigId k fr hs \<equiv>
     createExpressionStatement (createCall sigId
       ([createIdentifier t, createStringLiteral k] @
        (if fr \<or> hs \<noteq> []
         then [if fr then createTrue else createFalse] @
              (if hs \<noteq> [] then [customHooksGetter hs] else [])
         else [])))"

abbreviation signatureDeclaration :: "nat \<Rightarrow> stmt" where
  "signatureDeclaration n \<equiv>
     createVariableStatement []
       (map (\<lambda>k. createVariableDeclaration (createUniqueName ''_s'' k) []
                 (createCall (createIdentifier ''$RefreshSig$'') [])) [0..<n])
       ConstFlag"

abbreviation registrationCall :: "expr \<Rightarrow> stmt" where
  "registrationCall n \<equiv>
     createExpressionStatement
       (createCall (createIdentifier ''$RefreshReg$'') [n, createStringLiteralFromNode n])"

abbreviation resetComment :: "source_file \<Rightarrow> nat \<Rightarrow> bool" where
  "resetComment sf i \<equiv>
     (\<exists>c\<in>set (leadingCommentRanges sf i). \<exists>p q. c = p @ ''@refresh reset'' @ q)"

text \<open>
  A function expression or arrow function with a statement put before the statements of
  its block body, made by the factory.
\<close>

fun withFirstStatement :: "stmt \<Rightarrow> expr \<Rightarrow> expr" where
  "withFirstStatement s (Node _ (FunctionExpression h b)) = createFunctionExpression h (s # b)"
| "withFirstStatement s (Node _ (ArrowFunction h (Block b))) = createArrowFunction h (s # b)"
| "withFirstStatement s e = e"

text \<open>
  The number of signed functions before place \<open>j\<close> of statement \<open>i\<close>, in the order of
  the scan: the signature identifier of the function at that place has this number.
\<close>

fun signaturesWithin :: "stmt \<Rightarrow> nat \<Rightarrow> nat" where
  "signaturesWithin (VariableStatement m fl ds) j =
     length (concat (map declarationSignatures (take j ds)))"
| "signaturesWithin _ j = 0"

definition signatureIndex :: "source_file \<Rightarrow> nat \<Rightarrow> nat \<Rightarrow> nat" where
  "signatureIndex sf i j =
     length (concat (map statementSignatures (take i (statements sf)))) +
     signaturesWithin (statements sf ! i) j"


definition sigIds :: "scan_state \<Rightarrow> nat \<times> nat \<Rightarrow> expr option" where
  "sigIds st k = map_option sig_id (hookCalls st k)"

text \<open>
  The identifier of the signature of the function at declarator \<open>j\<close> of statement \<open>i\<close>,
  and the call that records it: the key of its signature, \<open>true\<close> when a comment before the
  statement asks for a reset or one of its custom hooks is in no statement of the module,
  and the custom hooks that are.
\<close>

abbreviation signatureId :: "source_file \<Rightarrow> nat \<Rightarrow> nat \<Rightarrow> expr" where
  "signatureId sf i j \<equiv> createUniqueName ''_s'' (signatureIndex sf i j)"

abbreviation recordingCallOf ::
  "source_file \<Rightarrow> nat \<Rightarrow> nat \<Rightarrow> string \<Rightarrow> hook_calls_signature \<Rightarrow> stmt" where
  "recordingCallOf sf i j t sg \<equiv>
     recordingCall t (signatureId sf i j) (sig_key sg)
       (resetComment sf i \<or> (\<exists>n\<in>set (sig_customHooks sg). n \<notin> hookNames sf))
       (filter (\<lambda>n. n \<in> hookNames sf) (sig_customHooks sg))"

section \<open>The output with the identity of its nodes\<close>

text \<open>
  The trees of the output do not tell a node of the source file from a node the factory
  has made with the same content. The callback of \<open>statements.map\<close> returns the node it
  was given (\<open>return node\<close>) for a function declaration without an entry in
  \<open>hookCalls\<close> and for every statement that is neither a function declaration nor a
  variable statement; for a signed function declaration it returns what \<open>_sign\<close> made,
  and for every variable statement, signed or not, a statement made by
  \<open>f.createVariableStatement\<close>, followed by the recording calls. \<open>rewriteNode\<close>
  pairs each statement of the result with the index of the source node it is, or with
  \<open>None\<close> for a node made by the factory (which has no position in the source text).
\<close>

fun returnsNode :: "scan_state \<Rightarrow> located \<Rightarrow> bool" where
  "returnsNode st (p, FunctionDeclaration h n b) = (hookCallsGet st p 0 = None)"
| "returnsNode st (p, VariableStatement m fl ds) = False"
| "returnsNode st (p, s) = True"

definition rewriteNode :: "source_file \<Rightarrow> scan_state \<Rightarrow> located \<Rightarrow> error + located list" where
  "rewriteNode sf st x =
     (case rewriteStatement sf st x of
        Inl e \<Rightarrow> Inl e
      | Inr b \<Rightarrow> Inr (map (Pair (if returnsNode st x then fst x else None)) b))"

definition transformNodes :: "source_file \<Rightarrow> error + located list" where
  "transformNodes sf =
     (let st = scan sf;
          statements1 = map (\<lambda>(i, s). (Some i, s)) (enumerate 0 (statements sf));
          statements2 = statements1 @ map (\<lambda>n. (None, registration n)) (components st);
          statements3 =
            (if length (signatures st) > 0
             then (None, signatureDeclarations (signatures st)) # statements2
             else statements2)
      in (case sequence (map (rewriteNode sf st) statements3) of
            Inl e \<Rightarrow> Inl e
          | Inr bs \<Rightarrow> Inr (concat bs)))"

section \<open>Example modules\<close>

text \<open>
  \<^verbatim>\<open>function Counter(){ const [n,setN]=useState(0); useMyHook(); return null }\<close>
  followed by \<^verbatim>\<open>function useMyHook(){ return 1 }\<close>.
\<close>

definition useStateStatement :: "expr \<Rightarrow> stmt" where
  "useStateStatement arg =
     VariableStatement [] ConstFlag
        [VariableDeclaration (Node ''[n,setN]'' BindingPattern) []
           (Some (Node (''useState('' @ getText arg @ '')'')
              (CallExpression (identifierNode ''useState'') [arg])))]"

definition counterRest :: "stmt list" where
  "counterRest =
     [ExpressionStatement
        (Node ''useMyHook()'' (CallExpression (identifierNode ''useMyHook'') [])),
      ReturnStatement (Some (Node ''null'' OtherExpression))]"

definition counterBody :: "stmt list" where
  "counterBody = useStateStatement (Node ''0'' OtherExpression) # counterRest"

definition counterDecl :: stmt where
  "counterDecl = FunctionDeclaration ''()'' (Some ''Counter'') (Some counterBody)"

definition useMyHookDecl :: stmt where
  "useMyHookDecl = FunctionDeclaration ''()'' (Some ''useMyHook'')
     (Some [ReturnStatement (Some (Node ''1'' OtherExpression))])"

definition counterModule :: source_file where
  "counterModule =
     \<lparr>statements = [counterDecl, useMyHookDecl], leadingCommentRanges = (\<lambda>_. [])\<rparr>"

text \<open>\<^verbatim>\<open>function Panel(){ useTheme() }\<close>: \<open>useTheme\<close> is declared nowhere.\<close>

definition panelDecl :: stmt where
  "panelDecl = FunctionDeclaration ''()'' (Some ''Panel'')
     (Some [ExpressionStatement
              (Node ''useTheme()'' (CallExpression (identifierNode ''useTheme'') []))])"

definition panelModule :: source_file where
  "panelModule = \<lparr>statements = [panelDecl], leadingCommentRanges = (\<lambda>_. [])\<rparr>"

text \<open>
  \<^verbatim>\<open>const App = () => { const data = useData(); return data }\<close> followed by
  \<^verbatim>\<open>function useData(){ return 1 }\<close>.
\<close>

definition appInitializer :: expr where
  "appInitializer = Node ''() => { const data = useData(); return data }''
     (ArrowFunction ''()''
        (Block [VariableStatement [] ConstFlag
                  [VariableDeclaration (identifierNode ''data'') []
                     (Some (Node ''useData()''
                        (CallExpression (identifierNode ''useData'') [])))],
                ReturnStatement (Some (identifierNode ''data''))]))"

definition appStatement :: stmt where
  "appStatement = VariableStatement [] ConstFlag
     [VariableDeclaration (identifierNode ''App'') [] (Some appInitializer)]"

definition useDataDecl :: stmt where
  "useDataDecl = FunctionDeclaration ''()'' (Some ''useData'')
     (Some [ReturnStatement (Some (Node ''1'' OtherExpression))])"

definition appModule :: source_file where
  "appModule = \<lparr>statements = [appStatement, useDataDecl], leadingCommentRanges = (\<lambda>_. [])\<rparr>"

text \<open>
  \<^verbatim>\<open>// @refresh reset\<close> before
  \<^verbatim>\<open>const Form = function () { const [v, setV] = useState(false) }\<close>.
\<close>

definition formInitializer :: expr where
  "formInitializer = Node ''function () { const [v, setV] = useState(false) }''
     (FunctionExpression ''()''
        [VariableStatement [] ConstFlag
           [VariableDeclaration (Node ''[v, setV]'' BindingPattern) []
              (Some (Node ''useState(false)''
                 (CallExpression (identifierNode ''useState'') [Node ''false'' OtherExpression])))]])"

definition formStatement :: stmt where
  "formStatement = VariableStatement [] ConstFlag
     [VariableDeclaration (identifierNode ''Form'') [] (Some formInitializer)]"

definition formModule :: source_file where
  "formModule =
     \<lparr>statements = [formStatement],
      leadingCommentRanges = (\<lambda>i. if i = 0 then [''// @refresh reset''] else [])\<rparr>"

text \<open>\<^verbatim>\<open>const a = useA(), b = useB()\<close>: two declarations in one statement.\<close>

definition declA :: var_decl where
  "declA = VariableDeclaration (identifierNode ''a'') []
     (Some (Node ''useA()'' (CallExpression (identifierNode ''useA'') [])))"

definition declB :: var_decl where
  "declB = VariableDeclaration (identifierNode ''b'') []
     (Some (Node ''useB()'' (CallExpression (identifierNode ''useB'') [])))"

definition twoDeclarations :: stmt where
  "twoDeclarations = VariableStatement [] ConstFlag [declA, declB]"

text \<open>
  The statements \<^verbatim>\<open>useEffect(f)\<close>, \<^verbatim>\<open>useEffect(g)\<close>, \<^verbatim>\<open>useA()\<close> and
  \<^verbatim>\<open>useB()\<close>, and a function \<open>Page\<close> with a given body.
\<close>

definition effectF :: stmt where
  "effectF = ExpressionStatement
     (Node ''useEffect(f)'' (CallExpression (identifierNode ''useEffect'') [identifierNode ''f'']))"

definition effectG :: stmt where
  "effectG = ExpressionStatement
     (Node ''useEffect(g)'' (CallExpression (identifierNode ''useEffect'') [identifierNode ''g'']))"

definition callA :: stmt where
  "callA = ExpressionStatement (Node ''useA()'' (CallExpression (identifierNode ''useA'') []))"

definition callB :: stmt where
  "callB = ExpressionStatement (Node ''useB()'' (CallExpression (identifierNode ''useB'') []))"

definition page :: "stmt list \<Rightarrow> TSFunctionLike" where
  "page body = Declaration (FunctionDeclaration ''()'' (Some ''Page'') (Some body))"












text \<open>What the pass makes of \<^verbatim>\<open>function Panel(){ useTheme() }\<close>.\<close>

definition panelOutput :: "stmt list" where
  "panelOutput =
     [signatureDeclaration 1,
      FunctionDeclaration ''()'' (Some ''Panel'')
        (Some [signatureCall (createUniqueName ''_s'' 0),
               ExpressionStatement
                 (Node ''useTheme()'' (CallExpression (identifierNode ''useTheme'') []))]),
      recordingCall ''Panel'' (createUniqueName ''_s'' 0) ''useTheme{}'' True [],
      registrationCall (identifierNode ''Panel'')]"

text \<open>
  What the pass makes of \<^verbatim>\<open>const App = () => { const data = useData(); return data }\<close>
  followed by \<^verbatim>\<open>function useData(){ return 1 }\<close>.
\<close>

definition appOutput :: "stmt list" where
  "appOutput =
     [signatureDeclaration 1,
      VariableStatement [] ConstFlag
        [VariableDeclaration (identifierNode ''App'') []
           (Some (createArrowFunction ''()''
              [signatureCall (createUniqueName ''_s'' 0),
               VariableStatement [] ConstFlag
                 [VariableDeclaration (identifierNode ''data'') []
                    (Some (Node ''useData()''
                       (CallExpression (identifierNode ''useData'') [])))],
               ReturnStatement (Some (identifierNode ''data''))]))],
      recordingCall ''App'' (createUniqueName ''_s'' 0) ''useData{data}'' False [''useData''],
      useDataDecl,
      registrationCall (identifierNode ''App'')]"

text \<open>
  \<^verbatim>\<open>function Basket(){ const items = useStore() }\<close> followed by
  \<^verbatim>\<open>const useStore = create(init)\<close>: the initializer of \<open>useStore\<close> is a call.
\<close>

definition basketDecl :: stmt where
  "basketDecl = FunctionDeclaration ''()'' (Some ''Basket'')
     (Some [VariableStatement [] ConstFlag
              [VariableDeclaration (identifierNode ''items'') []
                 (Some (Node ''useStore()'' (CallExpression (identifierNode ''useStore'') [])))]])"

definition useStoreStatement :: stmt where
  "useStoreStatement = VariableStatement [] ConstFlag
     [VariableDeclaration (identifierNode ''useStore'') []
        (Some (Node ''create(init)''
           (CallExpression (identifierNode ''create'') [identifierNode ''init''])))]"

definition basketModule :: source_file where
  "basketModule =
     \<lparr>statements = [basketDecl, useStoreStatement], leadingCommentRanges = (\<lambda>_. [])\<rparr>"

text \<open>
  A call whose state argument runs over three lines:
  \<^verbatim>\<open>const [s, d] = useReducer(r, {\<close>, \<^verbatim>\<open>count: 0\<close>, \<^verbatim>\<open>})\<close>.
\<close>

definition initialState :: expr where
  "initialState = Node (''{'' @ lineBreak @ ''count: 0'' @ lineBreak @ ''}'') OtherExpression"

definition reducerStatement :: stmt where
  "reducerStatement =
     VariableStatement [] ConstFlag
       [VariableDeclaration (Node ''[s, d]'' BindingPattern) []
          (Some (Node (''useReducer(r, '' @ getText initialState @ '')'')
             (CallExpression (identifierNode ''useReducer'') [identifierNode ''r'', initialState])))]"

text \<open>
  A declaration with a binding text that no parser gives, a closing brace, a line break
  and \<^verbatim>\<open>useA{\<close>, initialized by \<^verbatim>\<open>useA()\<close>.
\<close>

definition oddStatement :: stmt where
  "oddStatement =
     VariableStatement [] ConstFlag
       [VariableDeclaration (Node (''}'' @ lineBreak @ ''useA{'') BindingPattern) []
          (Some (Node ''useA()'' (CallExpression (identifierNode ''useA'') [])))]"

section \<open>The result of the scan\<close>

lemma sigs_noteName [simp]: "sigs (noteName t n st) = sigs st"
  by (auto simp: sigs_def noteName_def Let_def fun_eq_iff)

lemma sigs_noteSignature [simp]:
  "sigs (noteSignature k s st) k' = (if k' = k \<and> s \<noteq> None then s else sigs st k')"
  by (auto simp: sigs_def noteSignature_def Let_def entrySignature_def split: option.splits)

lemma sigs_scanDeclaration:
  "sigs (scanDeclaration i (j, d) st) k =
     (if k = (i, j) \<and> declarationSignature d \<noteq> None then declarationSignature d else sigs st k)"
  by (auto simp: scanDeclaration_def declarationSignature_def split: option.splits)

lemma sigs_fold_scanDeclaration:
  "sigs (fold (scanDeclaration i) (enumerate n ds) st) (i', j) =
     (if i' = i \<and> n \<le> j \<and> j < n + length ds \<and> declarationSignature (ds ! (j - n)) \<noteq> None
      then declarationSignature (ds ! (j - n)) else sigs st (i', j))"
proof (induction ds arbitrary: n st)
  case Nil
  then show ?case by auto
next
  case (Cons d ds)
  have nth: "n < j \<Longrightarrow> (d # ds) ! (j - n) = ds ! (j - Suc n)"
    by (simp add: nth_Cons')
  have step: "sigs (fold (scanDeclaration i) (enumerate n (d # ds)) st) (i', j) =
      (if i' = i \<and> Suc n \<le> j \<and> j < Suc n + length ds \<and>
          declarationSignature (ds ! (j - Suc n)) \<noteq> None
       then declarationSignature (ds ! (j - Suc n))
       else if (i', j) = (i, n) \<and> declarationSignature d \<noteq> None
       then declarationSignature d else sigs st (i', j))"
    by (auto simp: Cons.IH sigs_scanDeclaration)
  consider "j < n" | "j = n" | "n < j" by linarith
  then show ?case
  proof cases
    case 1
    then show ?thesis unfolding step by auto
  next
    case 2
    then show ?thesis unfolding step by auto
  next
    case 3
    then show ?thesis unfolding step using nth by auto
  qed
qed

lemma sigs_scanImport [simp]: "sigs (scanImport c st) = sigs st"
  by (auto simp: sigs_def scanImport_def Let_def fun_eq_iff
      split: option.splits import_clause.splits import_bindings.splits)

lemma sigs_scanStatement:
  "sigs (scanStatement (i, s) st) (i', j) =
     (if i' = i \<and> statementSignature s j \<noteq> None then statementSignature s j else sigs st (i', j))"
  by (cases s) (auto simp: sigs_fold_scanDeclaration split: option.splits)

lemma sigs_fold_scanStatement:
  "sigs (fold scanStatement (enumerate n ss) st) (i, j) =
     (if n \<le> i \<and> i < n + length ss \<and> statementSignature (ss ! (i - n)) j \<noteq> None
      then statementSignature (ss ! (i - n)) j else sigs st (i, j))"
proof (induction ss arbitrary: n st)
  case Nil
  then show ?case by auto
next
  case (Cons s ss)
  have nth: "n < i \<Longrightarrow> (s # ss) ! (i - n) = ss ! (i - Suc n)"
    by (simp add: nth_Cons')
  have step: "sigs (fold scanStatement (enumerate n (s # ss)) st) (i, j) =
      (if Suc n \<le> i \<and> i < Suc n + length ss \<and>
          statementSignature (ss ! (i - Suc n)) j \<noteq> None
       then statementSignature (ss ! (i - Suc n)) j
       else if i = n \<and> statementSignature s j \<noteq> None
       then statementSignature s j else sigs st (i, j))"
    by (auto simp: Cons.IH sigs_scanStatement)
  consider "i < n" | "i = n" | "n < i" by linarith
  then show ?case
  proof cases
    case 1
    then show ?thesis unfolding step by auto
  next
    case 2
    then show ?thesis unfolding step by auto
  next
    case 3
    then show ?thesis unfolding step using nth by auto
  qed
qed

lemma sigs_scan:
  "sigs (scan sf) (i, j) =
     (if i < length (statements sf) then statementSignature (statements sf ! i) j else None)"
  by (simp add: scan_def sigs_fold_scanStatement) (simp add: sigs_def)


lemma components_noteSignature [simp]: "components (noteSignature k s st) = components st"
  by (simp add: noteSignature_def Let_def split: option.splits)

lemma seenHooks_noteSignature [simp]: "seenHooks (noteSignature k s st) = seenHooks st"
  by (simp add: noteSignature_def Let_def split: option.splits)

lemma components_noteName [simp]:
  "components (noteName t n st) = components st @ (if isComponentishName t then [n] else [])"
  by (simp add: noteName_def Let_def)

lemma seenHooks_noteName [simp]:
  "seenHooks (noteName t n st) = seenHooks st \<union> (if isHookName t then {t} else {})"
  by (simp add: noteName_def Let_def)

lemma components_scanDeclaration:
  "components (scanDeclaration i (j, d) st) = components st @ declarationComponents d"
  by (auto simp: scanDeclaration_def declarationComponents_def split: option.splits)

lemma components_fold_scanDeclaration:
  "components (fold (scanDeclaration i) (enumerate n ds) st) =
     components st @ concat (map declarationComponents ds)"
  by (induction ds arbitrary: n st) (simp_all add: components_scanDeclaration)

lemma components_scanImport [simp]: "components (scanImport c st) = components st"
  by (simp add: scanImport_def Let_def
      split: option.splits import_clause.splits import_bindings.splits)

lemma components_scanStatement:
  "components (scanStatement (i, s) st) = components st @ statementComponents s"
proof (cases s)
  case (FunctionDeclaration h n b)
  then show ?thesis by (cases n) simp_all
qed (simp_all add: components_fold_scanDeclaration)

lemma components_fold_scanStatement:
  "components (fold scanStatement (enumerate n ss) st) =
     components st @ concat (map statementComponents ss)"
  by (induction ss arbitrary: n st) (simp_all add: components_scanStatement)

lemma components_scan:
  "components (scan sf) = concat (map statementComponents (statements sf))"
  by (simp add: scan_def components_fold_scanStatement)

section \<open>The shape of the output\<close>

lemma sequence_append:
  "sequence (xs @ ys) =
     (case sequence xs of
        Inl e \<Rightarrow> Inl e
      | Inr a \<Rightarrow> (case sequence ys of Inl e \<Rightarrow> Inl e | Inr b \<Rightarrow> Inr (a @ b)))"
  by (induction xs) (auto split: sum.splits)

lemma sequence_map_Inr: "sequence (map (\<lambda>x. Inr (f x)) xs) = Inr (map f xs)"
  by (induction xs) auto

lemma sequence_map_Inr_id: "sequence (map Inr ys) = Inr ys"
  by (induction ys) auto

lemma sequence_Inr_D: "sequence xs = Inr ys \<Longrightarrow> xs = map Inr ys"
proof (induction xs arbitrary: ys)
  case Nil
  then show ?case by auto
next
  case (Cons x xs)
  then show ?case
    by (auto split: sum.splits)
qed

lemma sequence_Inr_iff: "sequence xs = Inr ys \<longleftrightarrow> xs = map Inr ys"
  using sequence_Inr_D sequence_map_Inr_id by blast

lemma rewriteDeclaration_synthesized:
  "rewriteDeclaration st frc None = (\<lambda>jd. Inr (snd jd, []))"
  by (auto simp: rewriteDeclaration_def hookCallsGet_def fun_eq_iff split: option.splits)

lemma concat_map_Nil: "concat (map (\<lambda>x. []) xs) = []"
  by (induction xs) auto

lemma rewriteStatement_synthesized_variables:
  "rewriteStatement sf st (None, VariableStatement m fl ds) = Inr [VariableStatement m fl ds]"
  by (simp add: rewriteDeclaration_synthesized sequence_map_Inr comp_def
      createVariableStatement_def concat_map_Nil)

lemma rewriteStatement_registration:
  "rewriteStatement sf st (None, registration n) = Inr [registration n]"
  by (simp add: registration_def createExpressionStatement_def)

lemma transform_eq:
  "transform sf =
     (case sequence (map (rewriteStatement sf (scan sf)) (located sf)) of
        Inl e \<Rightarrow> Inl e
      | Inr bs \<Rightarrow>
          Inr ((if signatures (scan sf) \<noteq> []
                then [signatureDeclarations (signatures (scan sf))] else []) @
               concat bs @ map registration (components (scan sf))))"
proof -
  have regs: "sequence (map (rewriteStatement sf (scan sf) \<circ> (\<lambda>n. (None, registration n))) ns) =
      Inr (map (\<lambda>n. [registration n]) ns)" for ns
    by (simp add: comp_def rewriteStatement_registration sequence_map_Inr)
  have cc: "concat (map (\<lambda>n. [registration n]) ns) = map registration ns" for ns
    by (induction ns) auto
  have sd: "rewriteStatement sf (scan sf) (None, signatureDeclarations ids) =
      Inr [signatureDeclarations ids]" for ids
    unfolding signatureDeclarations_def createVariableStatement_def
    by (rule rewriteStatement_synthesized_variables)
  show ?thesis
    by (simp add: transform_def Let_def located_def sequence_append regs cc sd
        split: sum.splits)
qed

lemma getHookCallsSignature_blockBody:
  "getHookCallsSignature fnNode = Some sg \<Longrightarrow> \<exists>body. blockBody fnNode = Some body"
  by (cases "blockBody fnNode")
     (auto simp: getHookCallsSignature_def bodyHookCalls_def Let_def split: if_splits)

lemma sign_Declaration:
  "blockBody (Declaration (FunctionDeclaration h n b)) = Some body \<Longrightarrow>
     sign (Declaration (FunctionDeclaration h n b)) t i k fr hs =
       Some (Declaration (FunctionDeclaration h n (Some (signedBlock i body))), sign_s t i k fr hs)"
  by simp

lemma sign_Initializer:
  assumes "blockBody (Initializer e) = Some body"
  shows "\<exists>e'. sign (Initializer e) t i k fr hs = Some (Initializer e', sign_s t i k fr hs) \<and>
              blockBody (Initializer e') = Some (signedBlock i body) \<and>
              (isFunctionExpression e' \<longleftrightarrow> isFunctionExpression e) \<and>
              (isArrowFunction e' \<longleftrightarrow> isArrowFunction e)"
  using assms
  by (induction "Initializer e" t i k fr hs rule: sign.induct)
     (auto simp: createFunctionExpression_def createArrowFunction_def)

section \<open>Rewriting the statements of the source file\<close>

lemma sigs_None: "sigs st k = None \<longleftrightarrow> hookCalls st k = None"
  by (simp add: sigs_def)

lemma sigs_Some:
  "sigs st k = Some sg \<Longrightarrow>
     \<exists>e. hookCalls st k = Some e \<and> sig_key e = sig_key sg \<and> sig_customHooks e = sig_customHooks sg"
  by (auto simp: sigs_def entrySignature_def)

lemma rewrite_FunctionDeclaration_unsigned:
  assumes "i < length (statements sf)"
    and "statements sf ! i = FunctionDeclaration h n b"
    and "getHookCallsSignature (Declaration (FunctionDeclaration h n b)) = None"
  shows "rewriteStatement sf (scan sf) (Some i, FunctionDeclaration h n b) =
           Inr [FunctionDeclaration h n b]"
proof -
  have "sigs (scan sf) (i, 0) = None"
    using assms by (simp add: sigs_scan)
  then have "hookCalls (scan sf) (i, 0) = None" by (simp add: sigs_None)
  then show ?thesis by (simp add: hookCallsGet_def)
qed

lemma rewrite_FunctionDeclaration_anonymous:
  assumes "i < length (statements sf)"
    and "statements sf ! i = FunctionDeclaration h None b"
    and "getHookCallsSignature (Declaration (FunctionDeclaration h None b)) = Some sg"
  shows "rewriteStatement sf (scan sf) (Some i, FunctionDeclaration h None b) = Inl TypeError"
proof -
  have "sigs (scan sf) (i, 0) = Some sg"
    using assms by (simp add: sigs_scan)
  then obtain e where "hookCalls (scan sf) (i, 0) = Some e"
    using sigs_Some by blast
  then show ?thesis by (simp add: hookCallsGet_def Let_def)
qed

lemma rewrite_FunctionDeclaration_signed:
  assumes "i < length (statements sf)"
    and "statements sf ! i = FunctionDeclaration h (Some t) b"
    and "getHookCallsSignature (Declaration (FunctionDeclaration h (Some t) b)) = Some sg"
  shows "\<exists>sigId body. b = Some body \<and>
           rewriteStatement sf (scan sf) (Some i, FunctionDeclaration h (Some t) b) =
             Inr [FunctionDeclaration h (Some t) (Some (signedBlock sigId body)),
                  sign_s t sigId (sig_key sg)
                    (forceResetComment sf (Some i) \<or>
                     length (filter (\<lambda>n. n \<in> seenHooks (scan sf)) (sig_customHooks sg)) \<noteq>
                       length (sig_customHooks sg))
                    (filter (\<lambda>n. n \<in> seenHooks (scan sf)) (sig_customHooks sg))]"
proof -
  have "sigs (scan sf) (i, 0) = Some sg"
    using assms by (simp add: sigs_scan)
  then obtain e where e: "hookCalls (scan sf) (i, 0) = Some e"
      "sig_key e = sig_key sg" "sig_customHooks e = sig_customHooks sg"
    using sigs_Some by blast
  obtain body where body: "b = Some body"
    using getHookCallsSignature_blockBody [OF assms(3)] by auto
  show ?thesis
    using e body by (auto simp: hookCallsGet_def Let_def)
qed

lemma rewriteDeclaration_unsigned:
  assumes "i < length (statements sf)"
    and "statements sf ! i = VariableStatement m fl ds"
    and "j < length ds"
    and "declarationSignature (ds ! j) = None"
  shows "rewriteDeclaration (scan sf) frc (Some i) (j, ds ! j) = Inr (ds ! j, [])"
proof -
  have "sigs (scan sf) (i, j) = None"
    using assms by (simp add: sigs_scan)
  then have "hookCalls (scan sf) (i, j) = None" by (simp add: sigs_None)
  then show ?thesis
    by (simp add: rewriteDeclaration_def hookCallsGet_def split: option.splits)
qed

lemma rewriteDeclaration_signed:
  assumes "i < length (statements sf)"
    and "statements sf ! i = VariableStatement m fl ds"
    and "j < length ds"
    and "declarationSignature (ds ! j) = Some sg"
  shows "\<exists>sigId init init' t body.
           initializer (ds ! j) = Some init \<and> identifierText (decl_name (ds ! j)) = Some t \<and>
           blockBody (Initializer init) = Some body \<and>
           blockBody (Initializer init') = Some (signedBlock sigId body) \<and>
           rewriteDeclaration (scan sf) frc (Some i) (j, ds ! j) =
             Inr (createVariableDeclaration (decl_name (ds ! j)) (decl_type (ds ! j)) init',
                  [sign_s t sigId (sig_key sg)
                     (frc \<or>
                      length (filter (\<lambda>n. n \<in> seenHooks (scan sf)) (sig_customHooks sg)) \<noteq>
                        length (sig_customHooks sg))
                     (filter (\<lambda>n. n \<in> seenHooks (scan sf)) (sig_customHooks sg))])"
proof -
  have "sigs (scan sf) (i, j) = Some sg"
    using assms by (simp add: sigs_scan)
  then obtain e where e: "hookCalls (scan sf) (i, j) = Some e"
      "sig_key e = sig_key sg" "sig_customHooks e = sig_customHooks sg"
    using sigs_Some by blast
  obtain init t where d: "initializer (ds ! j) = Some init"
      "identifierText (decl_name (ds ! j)) = Some t"
      "isFunctionExpression init \<or> isArrowFunction init"
      "getHookCallsSignature (Initializer init) = Some sg"
    using assms(4) by (auto simp: declarationSignature_def split: option.splits if_splits)
  obtain body where body: "blockBody (Initializer init) = Some body"
    using getHookCallsSignature_blockBody [OF d(4)] by auto
  let ?hs = "filter (\<lambda>n. n \<in> seenHooks (scan sf)) (sig_customHooks sg)"
  let ?fr = "frc \<or> length ?hs \<noteq> length (sig_customHooks sg)"
  obtain init' where s: "sign (Initializer init) t (sig_id e) (sig_key sg) ?fr ?hs =
        Some (Initializer init', sign_s t (sig_id e) (sig_key sg) ?fr ?hs)"
      "blockBody (Initializer init') = Some (signedBlock (sig_id e) body)"
    using sign_Initializer [OF body] by blast
  have "rewriteDeclaration (scan sf) frc (Some i) (j, ds ! j) =
      Inr (createVariableDeclaration (decl_name (ds ! j)) (decl_type (ds ! j)) init',
           [sign_s t (sig_id e) (sig_key sg) ?fr ?hs])"
    using d(1,2,3) e s(1) by (simp add: rewriteDeclaration_def hookCallsGet_def Let_def)
  then show ?thesis using d(1,2) body s(2) by blast
qed

lemma sequence_all_Inr:
  "(\<And>x. x \<in> set xs \<Longrightarrow> \<exists>y. f x = Inr y) \<Longrightarrow>
     sequence (map f xs) = Inr (map (\<lambda>x. projr (f x)) xs)"
proof -
  assume a: "\<And>x. x \<in> set xs \<Longrightarrow> \<exists>y. f x = Inr y"
  have "f x = Inr (projr (f x))" if "x \<in> set xs" for x
    using a [OF that] by auto
  then have "map f xs = map Inr (map (\<lambda>x. projr (f x)) xs)"
    by simp
  then show ?thesis by (simp only: sequence_map_Inr_id)
qed

lemma rewrite_VariableStatement:
  assumes "i < length (statements sf)"
    and "statements sf ! i = VariableStatement m fl ds"
  shows "\<exists>rs. length rs = length ds \<and>
           rewriteStatement sf (scan sf) (Some i, VariableStatement m fl ds) =
             Inr (VariableStatement m fl (map fst rs) # concat (map snd rs)) \<and>
           (\<forall>j<length ds. rewriteDeclaration (scan sf) (forceResetComment sf (Some i)) (Some i)
                 (j, ds ! j) = Inr (rs ! j))"
proof -
  let ?f = "rewriteDeclaration (scan sf) (forceResetComment sf (Some i)) (Some i)"
  have inr: "\<exists>y. ?f (j, ds ! j) = Inr y" if "j < length ds" for j
  proof (cases "declarationSignature (ds ! j)")
    case None
    then show ?thesis using rewriteDeclaration_unsigned [OF assms that] by blast
  next
    case (Some sg)
    then show ?thesis using rewriteDeclaration_signed [OF assms that] by blast
  qed
  have "\<exists>y. ?f x = Inr y" if "x \<in> set (enumerate 0 ds)" for x
  proof -
    have "fst x < length ds" "ds ! fst x = snd x"
      using that by (simp_all add: in_set_enumerate_eq)
    then show ?thesis using inr [of "fst x"] by simp
  qed
  then have seq: "sequence (map ?f (enumerate 0 ds)) =
      Inr (map (\<lambda>x. projr (?f x)) (enumerate 0 ds))"
    by (rule sequence_all_Inr)
  let ?rs = "map (\<lambda>x. projr (?f x)) (enumerate 0 ds)"
  have nth: "?f (j, ds ! j) = Inr (?rs ! j)" if "j < length ds" for j
    using inr [OF that] that by (auto simp: nth_enumerate_eq)
  have "rewriteStatement sf (scan sf) (Some i, VariableStatement m fl ds) =
      Inr (VariableStatement m fl (map fst ?rs) # concat (map snd ?rs))"
    by (simp only: rewriteStatement.simps seq sum.case createVariableStatement_def)
  then show ?thesis using nth by (intro exI [of _ ?rs]) simp
qed

section \<open>The recording call of a signed function\<close>

lemma located_nth:
  "i < length (statements sf) \<Longrightarrow> located sf ! i = (Some i, statements sf ! i)"
  by (simp add: located_def nth_enumerate_eq)

lemma transform_blocks:
  assumes "transform sf = Inr out"
  shows "\<exists>blocks. length blocks = length (statements sf) \<and>
           out = (if signatures (scan sf) \<noteq> []
                  then [signatureDeclarations (signatures (scan sf))] else []) @
                 concat blocks @ map registration (components (scan sf)) \<and>
           (\<forall>i<length (statements sf).
              rewriteStatement sf (scan sf) (Some i, statements sf ! i) = Inr (blocks ! i))"
proof -
  obtain bs where bs: "sequence (map (rewriteStatement sf (scan sf)) (located sf)) = Inr bs"
    and out: "out = (if signatures (scan sf) \<noteq> []
                  then [signatureDeclarations (signatures (scan sf))] else []) @
                 concat bs @ map registration (components (scan sf))"
    using assms unfolding transform_eq by (auto split: sum.splits)
  have m: "map (rewriteStatement sf (scan sf)) (located sf) = map Inr bs"
    using bs by (rule sequence_Inr_D)
  have len: "length bs = length (statements sf)"
    using arg_cong [OF m, of length] by (simp add: located_def)
  have "rewriteStatement sf (scan sf) (Some i, statements sf ! i) = Inr (bs ! i)"
    if "i < length (statements sf)" for i
  proof -
    have "map (rewriteStatement sf (scan sf)) (located sf) ! i = map Inr bs ! i"
      using m by simp
    moreover have "i < length (located sf)" using that by (simp add: located_def)
    ultimately show ?thesis using that len by (simp add: located_nth)
  qed
  then show ?thesis using len out by blast
qed

lemma emitted_record:
  assumes "transform sf = Inr out"
    and "i < length (statements sf)"
    and "definedFunction (statements sf ! i) j = Some (t, fnNode)"
    and "getHookCallsSignature fnNode = Some sg"
  shows "\<exists>sigId. sign_s t sigId (sig_key sg)
            (forceResetComment sf (Some i) \<or>
             length (filter (\<lambda>n. n \<in> seenHooks (scan sf)) (sig_customHooks sg)) \<noteq>
               length (sig_customHooks sg))
            (filter (\<lambda>n. n \<in> seenHooks (scan sf)) (sig_customHooks sg)) \<in> set out"
proof -
  let ?hs = "filter (\<lambda>n. n \<in> seenHooks (scan sf)) (sig_customHooks sg)"
  let ?fr = "forceResetComment sf (Some i) \<or> length ?hs \<noteq> length (sig_customHooks sg)"
  obtain blocks where blocks: "length blocks = length (statements sf)"
      "out = (if signatures (scan sf) \<noteq> []
                  then [signatureDeclarations (signatures (scan sf))] else []) @
                 concat blocks @ map registration (components (scan sf))"
      "\<And>i. i < length (statements sf) \<Longrightarrow>
              rewriteStatement sf (scan sf) (Some i, statements sf ! i) = Inr (blocks ! i)"
    using transform_blocks [OF assms(1)] by blast
  have "\<exists>sigId. sign_s t sigId (sig_key sg) ?fr ?hs \<in> set (blocks ! i)"
  proof (cases "statements sf ! i")
    case (FunctionDeclaration h n b)
    then have n: "n = Some t" "j = 0" "fnNode = Declaration (FunctionDeclaration h (Some t) b)"
      using assms(3) by (cases n; auto split: if_splits)+
    obtain sigId body where
      "rewriteStatement sf (scan sf) (Some i, FunctionDeclaration h (Some t) b) =
         Inr [FunctionDeclaration h (Some t) (Some (signedBlock sigId body)),
              sign_s t sigId (sig_key sg) ?fr ?hs]"
      using rewrite_FunctionDeclaration_signed [OF assms(2), of h t b sg]
        FunctionDeclaration n assms(4) by auto
    then have "blocks ! i = [FunctionDeclaration h (Some t) (Some (signedBlock sigId body)),
              sign_s t sigId (sig_key sg) ?fr ?hs]"
      using blocks(3) [OF assms(2)] FunctionDeclaration n by simp
    then show ?thesis by auto
  next
    case (VariableStatement m fl ds)
    then have j: "j < length ds" "declaredFunction (ds ! j) = Some (t, fnNode)"
      using assms(3) by (auto split: if_splits)
    then have d: "identifierText (decl_name (ds ! j)) = Some t"
        "declarationSignature (ds ! j) = Some sg"
      using assms(4)
      by (auto simp: declaredFunction_def declarationSignature_def split: option.splits if_splits)
    obtain rs where rs: "length rs = length ds"
        "rewriteStatement sf (scan sf) (Some i, VariableStatement m fl ds) =
             Inr (VariableStatement m fl (map fst rs) # concat (map snd rs))"
        "\<And>j. j < length ds \<Longrightarrow>
            rewriteDeclaration (scan sf) (forceResetComment sf (Some i)) (Some i) (j, ds ! j) =
              Inr (rs ! j)"
      using rewrite_VariableStatement [OF assms(2) VariableStatement] by blast
    obtain sigId where "snd (rs ! j) = [sign_s t sigId (sig_key sg) ?fr ?hs]"
      using rewriteDeclaration_signed [OF assms(2) VariableStatement j(1) d(2),
          of "forceResetComment sf (Some i)"] rs(3) [OF j(1)] d(1)
      by auto
    then have "sign_s t sigId (sig_key sg) ?fr ?hs \<in> set (concat (map snd rs))"
      using j(1) rs(1) by (auto intro!: bexI [of _ "rs ! j"])
    moreover have "blocks ! i = VariableStatement m fl (map fst rs) # concat (map snd rs)"
      using blocks(3) [OF assms(2)] VariableStatement rs(2) by simp
    ultimately show ?thesis by auto
  qed (use assms(3) in auto)
  then obtain sigId where "sign_s t sigId (sig_key sg) ?fr ?hs \<in> set (blocks ! i)" by blast
  then have "sign_s t sigId (sig_key sg) ?fr ?hs \<in> set (concat blocks)"
    using assms(2) blocks(1) by (auto intro!: bexI [of _ "blocks ! i"])
  then show ?thesis unfolding blocks(2) by auto
qed

lemma stringIncludes_iff: "stringIncludes s sub \<longleftrightarrow> (\<exists>p q. s = p @ sub @ q)"
proof (induction s)
  case Nil
  then show ?case by auto
next
  case (Cons c cs)
  show ?case
  proof
    assume "stringIncludes (c # cs) sub"
    then consider "take (length sub) (c # cs) = sub" | "stringIncludes cs sub" by auto
    then show "\<exists>p q. c # cs = p @ sub @ q"
    proof cases
      case 1
      then have "c # cs = [] @ sub @ drop (length sub) (c # cs)"
        by (metis append_Nil append_take_drop_id)
      then show ?thesis by blast
    next
      case 2
      then obtain p q where "cs = p @ sub @ q" using Cons.IH by blast
      then have "c # cs = (c # p) @ sub @ q" by simp
      then show ?thesis by blast
    qed
  next
    assume "\<exists>p q. c # cs = p @ sub @ q"
    then obtain p q where pq: "c # cs = p @ sub @ q" by blast
    show "stringIncludes (c # cs) sub"
    proof (cases p)
      case Nil
      then have "take (length sub) (c # cs) = sub" using pq by simp
      then show ?thesis by simp
    next
      case (Cons a p')
      then have "cs = p' @ sub @ q" using pq by simp
      then have "stringIncludes cs sub" using Cons.IH by blast
      then show ?thesis by simp
    qed
  qed
qed

section \<open>Hook call sites\<close>

lemma getHookCallSignature_isCallExpression:
  "\<not> isCallExpression e \<Longrightarrow> getHookCallSignature p e = None"
  by (induction p e rule: getHookCallSignature.induct) simp_all

lemma statementHookCalls_ExpressionStatement:
  "statementHookCalls (ExpressionStatement e) =
     (case getHookCallSignature (ParentStatement (ExpressionStatement e)) e of
        None \<Rightarrow> [] | Some c \<Rightarrow> [c])"
  by (cases "isCallExpression e") (simp_all add: getHookCallSignature_isCallExpression)

lemma declarationHookCalls_eq:
  "declarationHookCalls d =
     (case initializer d of
        None \<Rightarrow> []
      | Some i \<Rightarrow> (case getHookCallSignature (ParentDeclaration d) i of
                    None \<Rightarrow> [] | Some c \<Rightarrow> [c]))"
proof (cases "initializer d")
  case None
  then show ?thesis by (simp add: declarationHookCalls_def)
next
  case (Some i)
  then show ?thesis
    by (cases "isCallExpression i")
       (simp_all add: declarationHookCalls_def getHookCallSignature_isCallExpression)
qed

lemma getHookCallSignature_isHookName:
  "getHookCallSignature p e = Some c \<Longrightarrow> isHookName (hook_name c)"
  by (induction p e rule: getHookCallSignature.induct)
     (auto split: option.splits if_splits)

lemma declarationHookCalls_isHookName:
  assumes "c \<in> set (declarationHookCalls d)"
  shows "isHookName (hook_name c)"
  using assms getHookCallSignature_isHookName
  by (auto simp: declarationHookCalls_eq split: option.splits)

lemma statementHookCalls_isHookName:
  assumes "c \<in> set (statementHookCalls s)"
  shows "isHookName (hook_name c)"
proof (cases s)
  case (VariableStatement m fl ds)
  then show ?thesis using assms declarationHookCalls_isHookName by auto
next
  case (ExpressionStatement e)
  then show ?thesis
    using assms getHookCallSignature_isHookName
    by (auto simp: statementHookCalls_ExpressionStatement simp del: statementHookCalls.simps
        split: option.splits)
qed (use assms in auto)

lemma customHooks_isHookName:
  assumes "getHookCallsSignature fnNode = Some sg" and "n \<in> set (sig_customHooks sg)"
  shows "isHookName n"
proof -
  obtain c where "c \<in> set (bodyHookCalls fnNode)" "n = hook_name c"
    using assms by (auto simp: getHookCallsSignature_def Let_def split: if_splits)
  then show ?thesis
    by (auto simp: bodyHookCalls_def dest: statementHookCalls_isHookName split: option.splits)
qed

lemma length_filter_neq: "length (filter P xs) \<noteq> length xs \<longleftrightarrow> (\<exists>x\<in>set xs. \<not> P x)"
proof
  assume "length (filter P xs) \<noteq> length xs"
  then have "filter P xs \<noteq> xs" by auto
  then show "\<exists>x\<in>set xs. \<not> P x" using filter_True [of xs P] by blast
next
  assume "\<exists>x\<in>set xs. \<not> P x"
  then show "length (filter P xs) \<noteq> length xs"
    using length_filter_less [of _ xs P] by fastforce
qed


lemma getHookCallSignature_Some:
  assumes "getHookCallSignature p e = Some c"
  shows "\<exists>tx callee args. e = Node tx (CallExpression callee args) \<and>
           calleeName callee = Some (hook_name c) \<and>
           hook_key c = bindingKey p @ argKeyFragment (hook_name c) args"
  using assms
  by (induction p e rule: getHookCallSignature.induct)
     (auto split: option.splits if_splits)

section \<open>The aggregate key\<close>

lemma join_Cons: "join sep (x # ys) = x @ concat (map (\<lambda>b. sep @ b) ys)"
  by (induction ys arbitrary: x) auto

lemma join_middle:
  "join sep (xs @ [x] @ ys) =
     concat (map (\<lambda>a. a @ sep) xs) @ x @ concat (map (\<lambda>b. sep @ b) ys)"
proof (induction xs)
  case Nil
  then show ?case by (simp add: join_Cons)
next
  case (Cons a xs)
  obtain z zs where z: "xs @ [x] @ ys = z # zs" by (cases "xs @ [x] @ ys") auto
  have "join sep ((a # xs) @ [x] @ ys) = a @ sep @ join sep (xs @ [x] @ ys)"
    using z by simp
  then show ?case using Cons.IH by simp
qed

lemma key_middle:
  assumes "bodyHookCalls fnNode = pre @ [c] @ post"
  shows "getHookCallsSignature fnNode =
           Some \<lparr>sig_key = concat (map (\<lambda>a. a @ lineBreak) (map hookCallKey pre)) @ hookCallKey c @
                          concat (map (\<lambda>b. lineBreak @ b) (map hookCallKey post)),
                 sig_customHooks =
                   map hook_name (filter (\<lambda>c. \<not> isBuiltinHook (hook_name c)) (pre @ [c] @ post))\<rparr>"
proof -
  have "join lineBreak (map hookCallKey (pre @ [c] @ post)) =
      concat (map (\<lambda>a. a @ lineBreak) (map hookCallKey pre)) @ hookCallKey c @
      concat (map (\<lambda>b. lineBreak @ b) (map hookCallKey post))"
    using join_middle [of lineBreak "map hookCallKey pre" "hookCallKey c" "map hookCallKey post"]
    by simp
  then show ?thesis
    using assms by (simp add: getHookCallsSignature_def Let_def)
qed

lemma bodyHookCalls_middle:
  assumes "blockBody fnNode = Some (pre @ [s] @ post)"
  shows "bodyHookCalls fnNode =
           concat (map statementHookCalls pre) @ statementHookCalls s @
           concat (map statementHookCalls post)"
  using assms by (simp add: bodyHookCalls_def)

lemma concat_lineBreak_nonempty:
  "ys \<noteq> [] \<Longrightarrow> \<exists>r. concat (map (\<lambda>b. lineBreak @ b) ys) = CHR 0x0A # r"
  by (cases ys) (auto simp: lineBreak_def)

lemma getHookCallSignature_call:
  assumes "calleeName callee = Some n" and "isHookName n"
  shows "getHookCallSignature p (Node tx (CallExpression callee args)) =
           Some \<lparr>hook_name = n, hook_key = bindingKey p @ argKeyFragment n args\<rparr>"
  using assms by simp

lemma statementHookCalls_declaration:
  assumes "calleeName callee = Some n" and "isHookName n"
  shows "statementHookCalls
           (VariableStatement m fl
              (ds1 @ [VariableDeclaration nm ty (Some (Node tx (CallExpression callee args)))] @ ds2)) =
         concat (map declarationHookCalls ds1) @
         [\<lparr>hook_name = n, hook_key = getText nm @ argKeyFragment n args\<rparr>] @
         concat (map declarationHookCalls ds2)"
  using assms by (simp add: declarationHookCalls_eq)

lemma statementHookCalls_expression:
  assumes "calleeName callee = Some n" and "isHookName n"
  shows "statementHookCalls (ExpressionStatement (Node tx (CallExpression callee args))) =
         [] @ [\<lparr>hook_name = n, hook_key = [] @ argKeyFragment n args\<rparr>] @ []"
  using assms
  by (simp add: statementHookCalls_ExpressionStatement del: statementHookCalls.simps)

section \<open>Signatures and components of the module\<close>

lemma length_signatures_noteName [simp]:
  "signatures (noteName t n st) = signatures st"
  by (simp add: noteName_def Let_def)

lemma length_signatures_noteSignature:
  "length (signatures (noteSignature k s st)) =
     length (signatures st) + (case s of None \<Rightarrow> 0 | Some sg \<Rightarrow> 1)"
  by (simp add: noteSignature_def Let_def split: option.splits)

lemma length_signatures_scanDeclaration:
  "length (signatures (scanDeclaration i (j, d) st)) =
     length (signatures st) + length (declarationSignatures d)"
  by (auto simp: scanDeclaration_def declarationSignatures_def declarationSignature_def
      length_signatures_noteSignature split: option.splits)

lemma length_signatures_fold_scanDeclaration:
  "length (signatures (fold (scanDeclaration i) (enumerate n ds) st)) =
     length (signatures st) + length (concat (map declarationSignatures ds))"
  by (induction ds arbitrary: n st) (simp_all add: length_signatures_scanDeclaration)

lemma signatures_scanImport [simp]: "signatures (scanImport c st) = signatures st"
  by (simp add: scanImport_def Let_def
      split: option.splits import_clause.splits import_bindings.splits)

lemma length_signatures_scanStatement:
  "length (signatures (scanStatement (i, s) st)) =
     length (signatures st) + length (statementSignatures s)"
proof (cases s)
  case (FunctionDeclaration h n b)
  then show ?thesis
    by (cases n) (simp_all add: length_signatures_noteSignature split: option.splits)
qed (simp_all add: length_signatures_fold_scanDeclaration)

lemma length_signatures_fold_scanStatement:
  "length (signatures (fold scanStatement (enumerate n ss) st)) =
     length (signatures st) + length (concat (map statementSignatures ss))"
  by (induction ss arbitrary: n st) (simp_all add: length_signatures_scanStatement)

lemma length_signatures_scan:
  "length (signatures (scan sf)) = length (concat (map statementSignatures (statements sf)))"
  by (simp add: scan_def length_signatures_fold_scanStatement)

lemma createStringLiteralFromNode_identifier:
  "identifierText n = Some t \<Longrightarrow> createStringLiteralFromNode n = createStringLiteral t"
  by (induction n rule: identifierText.induct) auto

lemma declarationComponents_identifier:
  assumes "n \<in> set (declarationComponents d)"
  shows "\<exists>t. identifierText n = Some t \<and> isComponentishName t \<and>
           createStringLiteralFromNode n = createStringLiteral t"
proof -
  have "\<exists>t. n = decl_name d \<and> identifierText (decl_name d) = Some t \<and> isComponentishName t"
    using assms
    by (cases "initializer d"; cases "identifierText (decl_name d)")
       (auto simp: declarationComponents_def split: if_splits)
  then obtain t where t: "n = decl_name d" "identifierText (decl_name d) = Some t"
      "isComponentishName t"
    by blast
  have "createStringLiteralFromNode n = createStringLiteral t"
    using t(1,2) createStringLiteralFromNode_identifier by simp
  then show ?thesis using t by auto
qed

lemma statementComponents_identifier:
  assumes "n \<in> set (statementComponents s)"
  shows "\<exists>t. identifierText n = Some t \<and> isComponentishName t \<and>
           createStringLiteralFromNode n = createStringLiteral t"
proof (cases s)
  case (FunctionDeclaration h nm b)
  then show ?thesis using assms
    by (cases nm) (auto simp: identifierNode_def split: if_splits)
next
  case (VariableStatement m fl ds)
  then show ?thesis using assms declarationComponents_identifier by auto
qed (use assms in auto)

section \<open>When the transform returns\<close>

text \<open>
  The transform raises only for a function declaration that has hook calls and no name
  (\<^verbatim>\<open>export default function () { useState(0) }\<close>); for every other module it returns
  its output.
\<close>

lemma transform_raises:
  assumes "i < length (statements sf)"
    and "statements sf ! i = FunctionDeclaration h None b"
    and "getHookCallsSignature (Declaration (FunctionDeclaration h None b)) = Some sg"
  shows "transform sf = Inl TypeError"
proof (cases "transform sf")
  case (Inl e)
  then show ?thesis by (cases e) simp
next
  case (Inr out)
  then obtain blocks where
    "\<forall>i<length (statements sf).
        rewriteStatement sf (scan sf) (Some i, statements sf ! i) = Inr (blocks ! i)"
    using transform_blocks by blast
  then have "rewriteStatement sf (scan sf) (Some i, FunctionDeclaration h None b) = Inr (blocks ! i)"
    using assms(1,2) by auto
  then show ?thesis
    using rewrite_FunctionDeclaration_anonymous [OF assms] by simp
qed

lemma transform_returns:
  assumes "\<And>i h b. i < length (statements sf) \<Longrightarrow>
             statements sf ! i = FunctionDeclaration h None b \<Longrightarrow>
             getHookCallsSignature (Declaration (FunctionDeclaration h None b)) = None"
  shows "\<exists>out. transform sf = Inr out"
proof -
  have one: "\<exists>y. rewriteStatement sf (scan sf) (Some i, statements sf ! i) = Inr y"
    if i: "i < length (statements sf)" for i
  proof (cases "statements sf ! i")
    case (FunctionDeclaration h n b)
    show ?thesis
    proof (cases "getHookCallsSignature (Declaration (FunctionDeclaration h n b))")
      case None
      then show ?thesis
        using rewrite_FunctionDeclaration_unsigned [OF i FunctionDeclaration] FunctionDeclaration
        by (simp del: rewriteStatement.simps)
    next
      case (Some sg)
      then obtain t where t: "n = Some t"
        using assms [OF i, of h b] FunctionDeclaration by (cases n) auto
      show ?thesis
        using rewrite_FunctionDeclaration_signed [OF i, of h t b sg] FunctionDeclaration Some t
        by (auto simp del: rewriteStatement.simps)
    qed
  next
    case (VariableStatement m fl ds)
    then show ?thesis
      using rewrite_VariableStatement [OF i VariableStatement]
      by (auto simp del: rewriteStatement.simps)
  qed simp_all
  have "\<exists>y. rewriteStatement sf (scan sf) x = Inr y" if x: "x \<in> set (located sf)" for x
  proof -
    obtain i where "i < length (located sf)" "x = located sf ! i"
      using x by (metis in_set_conv_nth)
    then have i: "i < length (statements sf)" and "x = located sf ! i"
      by (simp_all add: located_def)
    then have "x = (Some i, statements sf ! i)"
      by (simp add: located_nth)
    then show ?thesis using one [OF i] by simp
  qed
  then have "sequence (map (rewriteStatement sf (scan sf)) (located sf)) =
      Inr (map (\<lambda>x. projr (rewriteStatement sf (scan sf) x)) (located sf))"
    by (rule sequence_all_Inr)
  then show ?thesis by (simp add: transform_eq)
qed

section \<open>The hook-name set\<close>

lemma seenHooks_scanDeclaration_eq:
  "seenHooks (scanDeclaration i (j, d) st) = seenHooks st \<union> declarationHooks d"
  by (cases "initializer d"; cases "identifierText (decl_name d)")
     (auto simp: scanDeclaration_def declarationHooks_def)

lemma seenHooks_fold_scanDeclaration_eq:
  "seenHooks (fold (scanDeclaration i) (enumerate n ds) st) =
     seenHooks st \<union> (\<Union>d\<in>set ds. declarationHooks d)"
  by (induction ds arbitrary: n st) (auto simp: seenHooks_scanDeclaration_eq)

lemma seenHooks_scanImport_eq: "seenHooks (scanImport c st) = seenHooks st \<union> importHooks c"
proof (cases c)
  case None
  then show ?thesis by (simp add: scanImport_def)
next
  case (Some cl)
  obtain n b where "cl = ImportClause n b" by (cases cl)
  then show ?thesis
    using Some
    by (cases n; cases b)
       (auto simp: scanImport_def Let_def split: import_bindings.splits)
qed

lemma seenHooks_scanStatement_eq:
  "seenHooks (scanStatement (i, s) st) = seenHooks st \<union> statementHooks s"
proof (cases s)
  case (FunctionDeclaration h n b)
  then show ?thesis by (cases n) auto
qed (simp_all add: seenHooks_fold_scanDeclaration_eq seenHooks_scanImport_eq)

lemma seenHooks_fold_scanStatement_eq:
  "seenHooks (fold scanStatement (enumerate n ss) st) =
     seenHooks st \<union> (\<Union>s\<in>set ss. statementHooks s)"
  by (induction ss arbitrary: n st) (auto simp: seenHooks_scanStatement_eq)

lemma seenHooks_scan: "seenHooks (scan sf) = hookNames sf"
  by (simp add: scan_def hookNames_def seenHooks_fold_scanStatement_eq)

section \<open>The signature identifiers, by position\<close>

text \<open>
  The scan numbers the signature identifiers in source order: the function at declarator
  \<open>j\<close> of statement \<open>i\<close> gets the identifier numbered by the signed functions before it.
\<close>

lemma sigIds_noteName [simp]: "sigIds (noteName t n st) = sigIds st"
  by (auto simp: sigIds_def noteName_def Let_def fun_eq_iff)

lemma sigIds_noteSignature:
  "sigIds (noteSignature k s st) k' =
     (if k' = k \<and> s \<noteq> None then Some (createUniqueName ''_s'' (length (signatures st)))
      else sigIds st k')"
  by (auto simp: sigIds_def noteSignature_def Let_def split: option.splits)

lemma sigIds_scanDeclaration:
  "sigIds (scanDeclaration i (j, d) st) k =
     (if k = (i, j) \<and> declarationSignature d \<noteq> None
      then Some (createUniqueName ''_s'' (length (signatures st))) else sigIds st k)"
  by (cases "initializer d"; cases "identifierText (decl_name d)")
     (auto simp: scanDeclaration_def declarationSignature_def sigIds_noteSignature)

lemma take_Cons_diff: "n < j \<Longrightarrow> take (j - n) (d # ds) = d # take (j - Suc n) ds"
proof -
  assume "n < j"
  then have "j - n = Suc (j - Suc n)" by simp
  then show ?thesis by (simp only: take_Suc_Cons)
qed

lemma sigIds_fold_scanDeclaration:
  "sigIds (fold (scanDeclaration i) (enumerate n ds) st) (i', j) =
     (if i' = i \<and> n \<le> j \<and> j < n + length ds \<and> declarationSignature (ds ! (j - n)) \<noteq> None
      then Some (createUniqueName ''_s''
             (length (signatures st) +
              length (concat (map declarationSignatures (take (j - n) ds)))))
      else sigIds st (i', j))"
proof (induction ds arbitrary: n st)
  case Nil
  then show ?case by auto
next
  case (Cons d ds)
  have nth: "n < j \<Longrightarrow> (d # ds) ! (j - n) = ds ! (j - Suc n)"
    by (simp add: nth_Cons')
  have step: "sigIds (fold (scanDeclaration i) (enumerate n (d # ds)) st) (i', j) =
      (if i' = i \<and> Suc n \<le> j \<and> j < Suc n + length ds \<and>
          declarationSignature (ds ! (j - Suc n)) \<noteq> None
       then Some (createUniqueName ''_s''
             (length (signatures st) + length (declarationSignatures d) +
              length (concat (map declarationSignatures (take (j - Suc n) ds)))))
       else if (i', j) = (i, n) \<and> declarationSignature d \<noteq> None
       then Some (createUniqueName ''_s'' (length (signatures st))) else sigIds st (i', j))"
    by (auto simp: Cons.IH sigIds_scanDeclaration length_signatures_scanDeclaration)
  consider "j < n" | "j = n" | "n < j" by linarith
  then show ?case
  proof cases
    case 1
    then show ?thesis unfolding step by auto
  next
    case 2
    then show ?thesis unfolding step by auto
  next
    case 3
    then show ?thesis unfolding step using nth by (auto simp: take_Cons_diff add.assoc)
  qed
qed

lemma sigIds_scanImport [simp]: "sigIds (scanImport c st) = sigIds st"
  by (auto simp: sigIds_def scanImport_def Let_def fun_eq_iff
      split: option.splits import_clause.splits import_bindings.splits)

lemma sigIds_scanStatement:
  "sigIds (scanStatement (i, s) st) (i', j) =
     (if i' = i \<and> statementSignature s j \<noteq> None
      then Some (createUniqueName ''_s'' (length (signatures st) + signaturesWithin s j))
      else sigIds st (i', j))"
proof (cases s)
  case (FunctionDeclaration h n b)
  then show ?thesis by (cases n) (auto simp: sigIds_noteSignature)
next
  case (VariableStatement m fl ds)
  then show ?thesis by (auto simp: sigIds_fold_scanDeclaration)
qed auto

lemma sigIds_fold_scanStatement:
  "sigIds (fold scanStatement (enumerate n ss) st) (i, j) =
     (if n \<le> i \<and> i < n + length ss \<and> statementSignature (ss ! (i - n)) j \<noteq> None
      then Some (createUniqueName ''_s''
             (length (signatures st) +
              length (concat (map statementSignatures (take (i - n) ss))) +
              signaturesWithin (ss ! (i - n)) j))
      else sigIds st (i, j))"
proof (induction ss arbitrary: n st)
  case Nil
  then show ?case by auto
next
  case (Cons s ss)
  have nth: "n < i \<Longrightarrow> (s # ss) ! (i - n) = ss ! (i - Suc n)"
    by (simp add: nth_Cons')
  have step: "sigIds (fold scanStatement (enumerate n (s # ss)) st) (i, j) =
      (if Suc n \<le> i \<and> i < Suc n + length ss \<and>
          statementSignature (ss ! (i - Suc n)) j \<noteq> None
       then Some (createUniqueName ''_s''
             (length (signatures st) + length (statementSignatures s) +
              length (concat (map statementSignatures (take (i - Suc n) ss))) +
              signaturesWithin (ss ! (i - Suc n)) j))
       else if i = n \<and> statementSignature s j \<noteq> None
       then Some (createUniqueName ''_s'' (length (signatures st) + signaturesWithin s j))
       else sigIds st (i, j))"
    by (auto simp: Cons.IH sigIds_scanStatement length_signatures_scanStatement)
  consider "i < n" | "i = n" | "n < i" by linarith
  then show ?case
  proof cases
    case 1
    then show ?thesis unfolding step by auto
  next
    case 2
    then show ?thesis unfolding step by auto
  next
    case 3
    then show ?thesis unfolding step using nth by (auto simp: take_Cons_diff add.assoc)
  qed
qed

lemma sigIds_scan:
  "sigIds (scan sf) (i, j) =
     (if i < length (statements sf) \<and> statementSignature (statements sf ! i) j \<noteq> None
      then Some (createUniqueName ''_s'' (signatureIndex sf i j)) else None)"
  by (simp add: scan_def sigIds_fold_scanStatement signatureIndex_def) (simp add: sigIds_def)








section \<open>The rewritten statements, spelled out\<close>

lemma forceResetComment_iff: "forceResetComment sf (Some i) \<longleftrightarrow> resetComment sf i"
  by (auto simp: forceResetComment_def stringIncludes_iff filter_empty_conv)

lemma sign_s_eq: "sign_s t sigId k fr hs = recordingCall t sigId k fr hs"
  by (simp add: sign_s_def getCustomHooks_def)

lemma signedBlock_eq: "signedBlock sigId body = signatureCall sigId # body"
  by (simp add: signedBlock_def)




lemma hookCalls_scan_Some:
  assumes "i < length (statements sf)"
    and "statementSignature (statements sf ! i) j = Some sg"
  shows "\<exists>e. hookCalls (scan sf) (i, j) = Some e \<and> sig_key e = sig_key sg \<and>
              sig_customHooks e = sig_customHooks sg \<and>
              sig_id e = createUniqueName ''_s'' (signatureIndex sf i j)"
proof -
  have "sigs (scan sf) (i, j) = Some sg"
    using assms by (simp add: sigs_scan)
  then obtain e where e: "hookCalls (scan sf) (i, j) = Some e"
      "sig_key e = sig_key sg" "sig_customHooks e = sig_customHooks sg"
    using sigs_Some by blast
  have "sigIds (scan sf) (i, j) = Some (createUniqueName ''_s'' (signatureIndex sf i j))"
    using assms by (simp add: sigIds_scan)
  then have "sig_id e = createUniqueName ''_s'' (signatureIndex sf i j)"
    using e(1) by (simp add: sigIds_def)
  then show ?thesis using e by blast
qed

lemma sign_Initializer_eq:
  assumes "blockBody (Initializer e) = Some body"
  shows "sign (Initializer e) t i k fr hs =
           Some (Initializer (withFirstStatement (signatureCall i) e), sign_s t i k fr hs)"
  using assms
  by (induction "Initializer e" t i k fr hs rule: sign.induct)
     (auto simp: signedBlock_def)

lemma rewrite_FunctionDeclaration_exact:
  assumes "i < length (statements sf)"
    and "statements sf ! i = FunctionDeclaration h n b"
    and "getHookCallsSignature (Declaration (FunctionDeclaration h n b)) = Some sg"
    and "rewriteStatement sf (scan sf) (Some i, statements sf ! i) = Inr block"
  shows "\<exists>t body. n = Some t \<and> b = Some body \<and>
           hookCallsGet (scan sf) (Some i) 0 \<noteq> None \<and>
           block =
             [FunctionDeclaration h (Some t)
                (Some (signatureCall (createUniqueName ''_s'' (signatureIndex sf i 0)) # body)),
              recordingCall t (createUniqueName ''_s'' (signatureIndex sf i 0)) (sig_key sg)
                (resetComment sf i \<or> (\<exists>n\<in>set (sig_customHooks sg). n \<notin> hookNames sf))
                (filter (\<lambda>n. n \<in> hookNames sf) (sig_customHooks sg))]"
proof -
  obtain e where e: "hookCalls (scan sf) (i, 0) = Some e"
      "sig_key e = sig_key sg" "sig_customHooks e = sig_customHooks sg"
      "sig_id e = createUniqueName ''_s'' (signatureIndex sf i 0)"
    using hookCalls_scan_Some [OF assms(1), of 0 sg] assms(2,3) by auto
  obtain body where body: "b = Some body"
    using getHookCallsSignature_blockBody [OF assms(3)] by auto
  obtain t where t: "n = Some t"
    using rewrite_FunctionDeclaration_anonymous [OF assms(1), of h b sg] assms(2,3,4)
    by (cases n) (auto simp del: rewriteStatement.simps)
  let ?hs = "filter (\<lambda>n. n \<in> seenHooks (scan sf)) (sig_customHooks sg)"
  let ?fr = "forceResetComment sf (Some i) \<or> length ?hs \<noteq> length (sig_customHooks sg)"
  have fr: "?fr = (resetComment sf i \<or> (\<exists>n\<in>set (sig_customHooks sg). n \<notin> hookNames sf))"
    by (simp only: seenHooks_scan length_filter_neq forceResetComment_iff)
  have "rewriteStatement sf (scan sf) (Some i, FunctionDeclaration h (Some t) (Some body)) =
      Inr [FunctionDeclaration h (Some t) (Some (signedBlock (sig_id e) body)),
           sign_s t (sig_id e) (sig_key sg) ?fr ?hs]"
    using e(1,2,3) by (simp add: hookCallsGet_def Let_def)
  then have "rewriteStatement sf (scan sf) (Some i, FunctionDeclaration h (Some t) (Some body)) =
      Inr [FunctionDeclaration h (Some t)
                (Some (signatureCall (createUniqueName ''_s'' (signatureIndex sf i 0)) # body)),
              recordingCall t (createUniqueName ''_s'' (signatureIndex sf i 0)) (sig_key sg)
                (resetComment sf i \<or> (\<exists>n\<in>set (sig_customHooks sg). n \<notin> hookNames sf))
                (filter (\<lambda>n. n \<in> hookNames sf) (sig_customHooks sg))]"
    unfolding fr by (simp only: sign_s_eq signedBlock_eq seenHooks_scan e(4))
  then show ?thesis
    using assms(2,4) t body e(1) by (simp add: hookCallsGet_def del: rewriteStatement.simps)
qed

lemma rewriteDeclaration_exact:
  assumes "i < length (statements sf)"
    and "statements sf ! i = VariableStatement m fl ds"
    and "j < length ds"
    and "declarationSignature (ds ! j) = Some sg"
  shows "\<exists>t init.
           identifierText (decl_name (ds ! j)) = Some t \<and> initializer (ds ! j) = Some init \<and>
           rewriteDeclaration (scan sf) (forceResetComment sf (Some i)) (Some i) (j, ds ! j) =
             Inr (VariableDeclaration (decl_name (ds ! j)) (decl_type (ds ! j))
                    (Some (withFirstStatement
                       (signatureCall (createUniqueName ''_s'' (signatureIndex sf i j))) init)),
                  [recordingCall t (createUniqueName ''_s'' (signatureIndex sf i j)) (sig_key sg)
                     (resetComment sf i \<or> (\<exists>n\<in>set (sig_customHooks sg). n \<notin> hookNames sf))
                     (filter (\<lambda>n. n \<in> hookNames sf) (sig_customHooks sg))])"
proof -
  obtain e where e: "hookCalls (scan sf) (i, j) = Some e"
      "sig_key e = sig_key sg" "sig_customHooks e = sig_customHooks sg"
      "sig_id e = createUniqueName ''_s'' (signatureIndex sf i j)"
    using hookCalls_scan_Some [OF assms(1), of j sg] assms(2,3,4) by auto
  obtain init t where d: "initializer (ds ! j) = Some init"
      "identifierText (decl_name (ds ! j)) = Some t"
      "isFunctionExpression init \<or> isArrowFunction init"
      "getHookCallsSignature (Initializer init) = Some sg"
    using assms(4) by (auto simp: declarationSignature_def split: option.splits if_splits)
  obtain body where body: "blockBody (Initializer init) = Some body"
    using getHookCallsSignature_blockBody [OF d(4)] by auto
  let ?hs = "filter (\<lambda>n. n \<in> seenHooks (scan sf)) (sig_customHooks sg)"
  let ?fr = "forceResetComment sf (Some i) \<or> length ?hs \<noteq> length (sig_customHooks sg)"
  have fr: "?fr = (resetComment sf i \<or> (\<exists>n\<in>set (sig_customHooks sg). n \<notin> hookNames sf))"
    by (simp only: seenHooks_scan length_filter_neq forceResetComment_iff)
  have "rewriteDeclaration (scan sf) (forceResetComment sf (Some i)) (Some i) (j, ds ! j) =
      Inr (VariableDeclaration (decl_name (ds ! j)) (decl_type (ds ! j))
             (Some (withFirstStatement (signatureCall (sig_id e)) init)),
           [sign_s t (sig_id e) (sig_key sg) ?fr ?hs])"
    using d(1,2,3) e(1,2,3)
    by (simp add: rewriteDeclaration_def hookCallsGet_def Let_def sign_Initializer_eq [OF body]
        createVariableDeclaration_def)
  then have "rewriteDeclaration (scan sf) (forceResetComment sf (Some i)) (Some i) (j, ds ! j) =
      Inr (VariableDeclaration (decl_name (ds ! j)) (decl_type (ds ! j))
                    (Some (withFirstStatement
                       (signatureCall (createUniqueName ''_s'' (signatureIndex sf i j))) init)),
                  [recordingCall t (createUniqueName ''_s'' (signatureIndex sf i j)) (sig_key sg)
                     (resetComment sf i \<or> (\<exists>n\<in>set (sig_customHooks sg). n \<notin> hookNames sf))
                     (filter (\<lambda>n. n \<in> hookNames sf) (sig_customHooks sg))])"
    unfolding fr by (simp only: sign_s_eq seenHooks_scan e(4))
  then show ?thesis using d(1,2) by blast
qed

section \<open>The trees and the nodes of the output\<close>

lemma rewriteNode_synthesized_variables:
  "rewriteNode sf st (None, VariableStatement m fl ds) = Inr [(None, VariableStatement m fl ds)]"
  by (simp add: rewriteNode_def rewriteStatement_synthesized_variables
      del: rewriteStatement.simps)

lemma rewriteNode_registration:
  "rewriteNode sf st (None, registration n) = Inr [(None, registration n)]"
  by (simp add: rewriteNode_def registration_def createExpressionStatement_def)

lemma transformNodes_eq:
  "transformNodes sf =
     (case sequence (map (rewriteNode sf (scan sf)) (located sf)) of
        Inl e \<Rightarrow> Inl e
      | Inr bs \<Rightarrow>
          Inr ((if signatures (scan sf) \<noteq> []
                then [(None, signatureDeclarations (signatures (scan sf)))] else []) @
               concat bs @ map (\<lambda>n. (None, registration n)) (components (scan sf))))"
proof -
  have regs: "sequence (map (rewriteNode sf (scan sf) \<circ> (\<lambda>n. (None, registration n))) ns) =
      Inr (map (\<lambda>n. [(None, registration n)]) ns)" for ns
    by (simp add: comp_def rewriteNode_registration sequence_map_Inr)
  have cc: "concat (map (\<lambda>n. [(None, registration n)]) ns) =
      map (\<lambda>n. (None :: nat option, registration n)) ns" for ns
    by (induction ns) auto
  have sd: "rewriteNode sf (scan sf) (None, signatureDeclarations ids) =
      Inr [(None, signatureDeclarations ids)]" for ids
    unfolding signatureDeclarations_def createVariableStatement_def
    by (rule rewriteNode_synthesized_variables)
  show ?thesis
    by (simp add: transformNodes_def Let_def located_def sequence_append regs cc sd
        split: sum.splits)
qed

lemma sequence_map_rewriteNode:
  "sequence (map (rewriteNode sf st) xs) =
     (case sequence (map (rewriteStatement sf st) xs) of
        Inl e \<Rightarrow> Inl e
      | Inr bs \<Rightarrow> Inr (map (\<lambda>(x, b). map (Pair (if returnsNode st x then fst x else None)) b)
                       (zip xs bs)))"
proof (induction xs)
  case Nil
  then show ?case by simp
next
  case (Cons x xs)
  then show ?case
    by (cases "rewriteStatement sf st x"; cases "sequence (map (rewriteStatement sf st) xs)")
       (simp_all add: rewriteNode_def del: rewriteStatement.simps)
qed

lemma concat_map_snd:
  "concat (map (map snd) (map (\<lambda>(x, b). map (Pair (f x)) b) (zip xs bs))) =
     concat (take (length xs) bs)"
proof (induction xs arbitrary: bs)
  case Nil
  then show ?case by simp
next
  case (Cons x xs)
  then show ?case by (cases bs) (simp_all add: comp_def)
qed

text \<open>The two outputs hold the same trees.\<close>

lemma transform_trees:
  "transform sf = (case transformNodes sf of Inl e \<Rightarrow> Inl e | Inr out \<Rightarrow> Inr (map snd out))"
proof (cases "sequence (map (rewriteStatement sf (scan sf)) (located sf))")
  case (Inl e)
  then show ?thesis
    by (simp add: transform_eq transformNodes_eq sequence_map_rewriteNode)
next
  case (Inr bs)
  have m: "map (rewriteStatement sf (scan sf)) (located sf) = map Inr bs"
    using Inr by (rule sequence_Inr_D)
  have len: "length bs = length (located sf)"
    using arg_cong [OF m, of length] by simp
  have "concat (map (map snd)
      (map (\<lambda>(x, b). map (Pair (if returnsNode (scan sf) x then fst x else None)) b)
        (zip (located sf) bs))) = concat bs"
    unfolding concat_map_snd using len by simp
  then show ?thesis
    using Inr
    by (simp add: transform_eq transformNodes_eq sequence_map_rewriteNode map_concat comp_def)
qed





section \<open>The recording call of a function, spelled out\<close>

lemma emitted_recordingCall:
  assumes "transform sf = Inr out"
    and "i < length (statements sf)"
    and "definedFunction (statements sf ! i) j = Some (t, fnNode)"
    and "getHookCallsSignature fnNode = Some sg"
  shows "recordingCallOf sf i j t sg \<in> set out"
proof -
  define r where "r = recordingCallOf sf i j t sg"
  obtain blocks where blocks: "length blocks = length (statements sf)"
      "out = (if signatures (scan sf) \<noteq> []
                  then [signatureDeclarations (signatures (scan sf))] else []) @
                 concat blocks @ map registration (components (scan sf))"
      "\<And>i. i < length (statements sf) \<Longrightarrow>
              rewriteStatement sf (scan sf) (Some i, statements sf ! i) = Inr (blocks ! i)"
    using transform_blocks [OF assms(1)] by blast
  have "r \<in> set (blocks ! i)"
  proof (cases "statements sf ! i")
    case (FunctionDeclaration h n b)
    then have n: "n = Some t" "j = 0" "fnNode = Declaration (FunctionDeclaration h n b)"
      using assms(3) by (cases n; auto split: if_splits)+
    have g: "getHookCallsSignature (Declaration (FunctionDeclaration h n b)) = Some sg"
      using assms(4) n(3) by simp
    obtain t' body where tb: "n = Some t'"
        "blocks ! i =
             [FunctionDeclaration h (Some t')
                (Some (signatureCall (signatureId sf i 0) # body)),
              recordingCallOf sf i 0 t' sg]"
      using rewrite_FunctionDeclaration_exact [OF assms(2) FunctionDeclaration g
          blocks(3) [OF assms(2)]] by blast
    have t': "t = t'" using tb(1) n(1) by simp
    have "blocks ! i =
             [FunctionDeclaration h (Some t')
                (Some (signatureCall (signatureId sf i 0) # body)), r]"
      unfolding r_def n(2) t' by (rule tb(2))
    then show ?thesis by simp
  next
    case (VariableStatement m fl ds)
    then have j: "j < length ds" "declaredFunction (ds ! j) = Some (t, fnNode)"
      using assms(3) by (auto split: if_splits)
    then have d: "identifierText (decl_name (ds ! j)) = Some t"
        "declarationSignature (ds ! j) = Some sg"
      using assms(4)
      by (auto simp: declaredFunction_def declarationSignature_def split: option.splits if_splits)
    obtain rs where rs: "length rs = length ds"
        "rewriteStatement sf (scan sf) (Some i, VariableStatement m fl ds) =
             Inr (VariableStatement m fl (map fst rs) # concat (map snd rs))"
        "\<And>j. j < length ds \<Longrightarrow>
            rewriteDeclaration (scan sf) (forceResetComment sf (Some i)) (Some i) (j, ds ! j) =
              Inr (rs ! j)"
      using rewrite_VariableStatement [OF assms(2) VariableStatement] by blast
    obtain t' d' where ti: "identifierText (decl_name (ds ! j)) = Some t'"
        "rewriteDeclaration (scan sf) (forceResetComment sf (Some i)) (Some i) (j, ds ! j) =
           Inr (d', [recordingCallOf sf i j t' sg])"
      using rewriteDeclaration_exact [OF assms(2) VariableStatement j(1) d(2)] by blast
    have t': "t = t'" using ti(1) d(1) by simp
    have "rewriteDeclaration (scan sf) (forceResetComment sf (Some i)) (Some i) (j, ds ! j) =
           Inr (d', [r])"
      unfolding r_def t' by (rule ti(2))
    then have "snd (rs ! j) = [r]"
      using rs(3) [OF j(1)] by simp
    then have "r \<in> set (concat (map snd rs))"
      using j(1) rs(1) by (auto intro!: bexI [of _ "rs ! j"])
    moreover have "blocks ! i = VariableStatement m fl (map fst rs) # concat (map snd rs)"
      using blocks(3) [OF assms(2)] VariableStatement rs(2) by simp
    ultimately show ?thesis by simp
  qed (use assms(3) in auto)
  then have "r \<in> set (concat blocks)"
    using assms(2) blocks(1) by (auto intro!: bexI [of _ "blocks ! i"])
  then have "r \<in> set out" unfolding blocks(2) by simp
  then show ?thesis unfolding r_def .
qed

text \<open>
  A hook name bound to anything but a function expression or an arrow function is not
  added to \<open>seenHooks\<close>: \<open>useStore\<close> below is dropped from the custom hooks of \<open>Basket\<close>
  and the reset flag is set.
\<close>

lemma hook_bound_to_a_call:
  "''useStore'' \<notin> hookNames basketModule \<and>
   transform basketModule =
     Inr [signatureDeclaration 1,
          FunctionDeclaration ''()'' (Some ''Basket'')
            (Some [signatureCall (createUniqueName ''_s'' 0),
                   VariableStatement [] ConstFlag
                     [VariableDeclaration (identifierNode ''items'') []
                        (Some (Node ''useStore()''
                           (CallExpression (identifierNode ''useStore'') [])))]]),
          recordingCall ''Basket'' (createUniqueName ''_s'' 0) ''useStore{items}'' True [],
          useStoreStatement,
          registrationCall (identifierNode ''Basket'')]"
  by code_simp

section \<open>Two keys that agree up to a line break\<close>

lemma append_lineBreak_eq:
  assumes "u @ CHR 0x0A # r = v @ CHR 0x0A # r'"
  shows "u = v \<or> prefix (u @ lineBreak) v \<or> prefix (v @ lineBreak) u"
proof -
  obtain us where us: "u = v @ us \<and> us @ CHR 0x0A # r = CHR 0x0A # r' \<or>
      u @ us = v \<and> CHR 0x0A # r = us @ CHR 0x0A # r'"
    using assms unfolding append_eq_append_conv2 by blast
  show ?thesis
  proof (cases us)
    case Nil
    then show ?thesis using us by auto
  next
    case (Cons c cs)
    from us show ?thesis
    proof
      assume "u = v @ us \<and> us @ CHR 0x0A # r = CHR 0x0A # r'"
      then have "u = (v @ lineBreak) @ cs" using Cons by (simp add: lineBreak_def)
      then show ?thesis by (metis prefixI)
    next
      assume "u @ us = v \<and> CHR 0x0A # r = us @ CHR 0x0A # r'"
      then have "v = (u @ lineBreak) @ cs" using Cons by (auto simp: lineBreak_def)
      then show ?thesis by (metis prefixI)
    qed
  qed
qed

text \<open>
  The texts of the tree are arbitrary strings here, and for them the condition on the
  beginnings is needed: the entry of \<open>oddStatement\<close> is the entry of \<^verbatim>\<open>useA()\<close>, a line
  break, and that entry again, and the two swap without a change of the key.
\<close>

lemma entries_one_beginning_the_other:
  "hookCallKey \<lparr>hook_name = ''useA'', hook_key = []\<rparr> \<noteq>
     hookCallKey \<lparr>hook_name = ''useA'', hook_key = ''}'' @ lineBreak @ ''useA{''\<rparr> \<and>
   prefix (hookCallKey \<lparr>hook_name = ''useA'', hook_key = []\<rparr> @ lineBreak)
     (hookCallKey \<lparr>hook_name = ''useA'', hook_key = ''}'' @ lineBreak @ ''useA{''\<rparr>) \<and>
   bodyHookCalls (page [callA, oddStatement]) =
     [\<lparr>hook_name = ''useA'', hook_key = []\<rparr>,
      \<lparr>hook_name = ''useA'', hook_key = ''}'' @ lineBreak @ ''useA{''\<rparr>] \<and>
   getHookCallsSignature (page [callA, oddStatement]) =
     getHookCallsSignature (page [oddStatement, callA])"
  by code_simp

section \<open>The claims\<close>

text \<open>
  C1. For the module \<^verbatim>\<open>function Counter(){ const [n,setN]=useState(0); useMyHook(); return null }\<close>,
  \<^verbatim>\<open>function useMyHook(){ return 1 }\<close> the transform emits one signature, owned by
  \<open>Counter\<close>: its key is \<open>useState{[n,setN](0)}\<close>, a line break, \<open>useMyHook{}\<close>; its
  custom hooks are exactly \<open>useMyHook\<close>; its forceReset argument is false; and the output
  ends with one registration call, of the identifier \<open>Counter\<close> with the string literal
  \<open>Counter\<close>.
\<close>

theorem counter_end_to_end:
  "transform counterModule =
     Inr [createVariableStatement []
            [createVariableDeclaration (createUniqueName ''_s'' 0) []
               (createCall (createIdentifier ''$RefreshSig$'') [])] ConstFlag,
          FunctionDeclaration ''()'' (Some ''Counter'')
            (Some (createExpressionStatement (createCall (createUniqueName ''_s'' 0) []) #
                   counterBody)),
          createExpressionStatement
            (createCall (createUniqueName ''_s'' 0)
               [createIdentifier ''Counter'',
                createStringLiteral (''useState{[n,setN](0)}'' @ [CHR 0x0A] @ ''useMyHook{}''),
                createFalse,
                createFunctionExpression []
                  [createReturn (createArrayLiteral [createIdentifier ''useMyHook''])]]),
          useMyHookDecl,
          createExpressionStatement
            (createCall (createIdentifier ''$RefreshReg$'')
               [identifierNode ''Counter'', createStringLiteral ''Counter''])]"
  by code_simp

text \<open>
  C2, as stated: a custom hook whose declaration comes later in the module is not yet in
  the hook-name set when the custom hooks of its caller are resolved, so it is dropped
  and forceReset is set. The code resolves the custom hooks in the rewrite, after the
  whole module has been scanned: in \<^verbatim>\<open>const App = () => { const data = useData(); return data }\<close>,
  \<^verbatim>\<open>function useData(){ return 1 }\<close> the hook is kept and forceReset is false.
\<close>

theorem forward_reference_counterexample:
  "definedFunction (statements appModule ! 0) 0 = Some (''App'', Initializer appInitializer) \<and>
   getHookCallsSignature (Initializer appInitializer) =
     Some \<lparr>sig_key = ''useData{data}'', sig_customHooks = [''useData'']\<rparr> \<and>
   statements appModule ! 1 = useDataDecl \<and>
   transform appModule =
     Inr [signatureDeclarations [createUniqueName ''_s'' 0],
          VariableStatement [] ConstFlag
            [VariableDeclaration (identifierNode ''App'') []
               (Some (createArrowFunction ''()''
                  (signedBlock (createUniqueName ''_s'' 0)
                     [VariableStatement [] ConstFlag
                        [VariableDeclaration (identifierNode ''data'') []
                           (Some (Node ''useData()''
                              (CallExpression (identifierNode ''useData'') [])))],
                      ReturnStatement (Some (identifierNode ''data''))])))],
          createExpressionStatement (createCall (createUniqueName ''_s'' 0)
            [createIdentifier ''App'', createStringLiteral ''useData{data}'', createFalse,
             getCustomHooks [''useData'']]),
          useDataDecl,
          registration (identifierNode ''App'')]"
  by code_simp

text \<open>
  C2, amended. Let a function call, directly in its body, a custom hook that a later
  top-level statement declares as a function (a function declaration of that name, or a
  variable declaration binding that name to a function expression or an arrow function)
  or imports (as the default import or a named import). Then the hook is in the hook-name
  set when the custom hooks are resolved and it is in the custom hooks of the recording
  call; the third argument of that call is \<open>true\<close> exactly when a comment before the
  defining statement contains \<^verbatim>\<open>@refresh reset\<close> or some custom hook of the function is
  in no statement of the module. (A name bound later to anything else, as in
  \<^verbatim>\<open>const useStore = create(init)\<close>, is no such declaration: that hook is dropped and the
  flag is set, as C4 says.)
\<close>

theorem later_declared_hook_is_resolved:
  assumes "transform sf = Inr out"
    and "i < length (statements sf)"
    and "definedFunction (statements sf ! i) j = Some (t, fnNode)"
    and "getHookCallsSignature fnNode = Some sg"
    and "hk \<in> set (sig_customHooks sg)"
    and "i < k"
    and "k < length (statements sf)"
    and "hk \<in> statementHooks (statements sf ! k)"
  shows "hk \<in> hookNames sf \<and>
         hk \<in> set (filter (\<lambda>n. n \<in> hookNames sf) (sig_customHooks sg)) \<and>
         recordingCall t (signatureId sf i j) (sig_key sg)
           (resetComment sf i \<or> (\<exists>n\<in>set (sig_customHooks sg). n \<notin> hookNames sf))
           (filter (\<lambda>n. n \<in> hookNames sf) (sig_customHooks sg)) \<in> set out"
proof -
  have seen: "hk \<in> hookNames sf"
    using assms(7,8) by (auto simp: hookNames_def)
  moreover have "hk \<in> set (filter (\<lambda>n. n \<in> hookNames sf) (sig_customHooks sg))"
    using seen assms(5) by simp
  moreover have "recordingCallOf sf i j t sg \<in> set out"
    using assms(1-4) by (rule emitted_recordingCall)
  ultimately show ?thesis by (intro conjI)
qed

theorem later_declared_hook_is_resolved_witness:
  "transform appModule = Inr appOutput \<and>
   signatureIndex appModule 0 0 = 0 \<and>
   filter (\<lambda>n. n \<in> hookNames appModule) [''useData''] = [''useData''] \<and>
   \<not> resetComment appModule 0 \<and>
   ''useData'' \<in> hookNames appModule \<and>
   ''useData'' \<in> set (filter (\<lambda>n. n \<in> hookNames appModule) [''useData'']) \<and>
   recordingCall ''App'' (signatureId appModule 0 0) ''useData{data}''
     (resetComment appModule 0 \<or> (\<exists>n\<in>set [''useData'']. n \<notin> hookNames appModule))
     (filter (\<lambda>n. n \<in> hookNames appModule) [''useData'']) \<in> set appOutput"
proof -
  have t: "transform appModule = Inr appOutput"
    by code_simp
  have i: "0 < length (statements appModule)" by code_simp
  have d: "definedFunction (statements appModule ! 0) 0 =
      Some (''App'', Initializer appInitializer)"
    by code_simp
  have g: "getHookCallsSignature (Initializer appInitializer) =
      Some \<lparr>sig_key = ''useData{data}'', sig_customHooks = [''useData'']\<rparr>"
    by code_simp
  have k: "1 < length (statements appModule)" by code_simp
  have s: "''useData'' \<in> statementHooks (statements appModule ! 1)"
    by code_simp
  have m: "''useData'' \<in> set (sig_customHooks
      \<lparr>sig_key = ''useData{data}'', sig_customHooks = [''useData'']\<rparr>)"
    by simp
  have lt: "(0::nat) < 1" by simp
  have n: "signatureIndex appModule 0 0 = 0" by code_simp
  have f: "filter (\<lambda>n. n \<in> hookNames appModule) [''useData''] = [''useData'']" by code_simp
  have c: "\<not> resetComment appModule 0" by (simp add: appModule_def)
  show ?thesis
    using later_declared_hook_is_resolved [OF t i d g m lt k s] t n f c
    by (simp only: hook_calls_signature.select_convs simp_thms)
qed

text \<open>
  C3, as stated: the binding key of a call site is the text of the binding pattern only
  when the call is the sole initializer of a variable statement with a single
  declaration, and empty for a declaration in a statement with several. The code takes
  the text of the name of the parent declaration whenever the parent of the call is a
  variable declaration: in \<^verbatim>\<open>const a = useA(), b = useB()\<close> the binding keys are
  \<open>a\<close> and \<open>b\<close>.
\<close>

theorem multi_declarator_counterexample:
  "statementHookCalls (VariableStatement [] ConstFlag [declA, declB]) =
     [\<lparr>hook_name = ''useA'', hook_key = ''a''\<rparr>, \<lparr>hook_name = ''useB'', hook_key = ''b''\<rparr>] \<and>
   bindingKey (ParentDeclaration declA) = ''a'' \<and>
   bindingKey (ParentDeclaration declB) = ''b''"
  by code_simp

text \<open>
  C3, amended: every call site extracted from a direct statement is either the
  initializer of a declaration of a variable statement (with one declaration or with
  several), and then its key is the text of the name of that declaration followed by
  the argument fragment; or it is the expression of an expression statement, and then
  its binding key is empty: the key is the argument fragment alone.
\<close>

theorem binding_key_of_call_site:
  assumes "c \<in> set (statementHookCalls s)"
  shows "(\<exists>m fl ds d tx callee args.
            s = VariableStatement m fl ds \<and> d \<in> set ds \<and>
            initializer d = Some (Node tx (CallExpression callee args)) \<and>
            calleeName callee = Some (hook_name c) \<and>
            hook_key c = getText (decl_name d) @ argKeyFragment (hook_name c) args) \<or>
         (\<exists>tx callee args.
            s = ExpressionStatement (Node tx (CallExpression callee args)) \<and>
            calleeName callee = Some (hook_name c) \<and>
            hook_key c = argKeyFragment (hook_name c) args)"
proof (cases s)
  case (VariableStatement m fl ds)
  then obtain d where d: "d \<in> set ds" "c \<in> set (declarationHookCalls d)"
    using assms by auto
  have "\<exists>e. initializer d = Some e \<and> getHookCallSignature (ParentDeclaration d) e = Some c"
  proof (cases "initializer d")
    case None
    then show ?thesis using d(2) by (simp add: declarationHookCalls_eq)
  next
    case (Some e)
    then show ?thesis using d(2)
      by (cases "getHookCallSignature (ParentDeclaration d) e")
         (simp_all add: declarationHookCalls_eq)
  qed
  then obtain e where e: "initializer d = Some e"
      "getHookCallSignature (ParentDeclaration d) e = Some c"
    by blast
  then show ?thesis
    using getHookCallSignature_Some [OF e(2)] d(1) VariableStatement by auto
next
  case (ExpressionStatement e)
  then have "getHookCallSignature (ParentStatement (ExpressionStatement e)) e = Some c"
    using assms
    by (auto simp: statementHookCalls_ExpressionStatement simp del: statementHookCalls.simps
        split: option.splits)
  then show ?thesis
    using getHookCallSignature_Some [of "ParentStatement (ExpressionStatement e)" e c]
      ExpressionStatement by auto
qed (use assms in auto)

theorem binding_key_of_call_site_witness:
  "(\<exists>m fl ds d tx callee args.
      twoDeclarations = VariableStatement m fl ds \<and> d \<in> set ds \<and>
      initializer d = Some (Node tx (CallExpression callee args)) \<and>
      calleeName callee = Some (hook_name \<lparr>hook_name = ''useB'', hook_key = ''b''\<rparr>) \<and>
      hook_key \<lparr>hook_name = ''useB'', hook_key = ''b''\<rparr> =
        getText (decl_name d) @
        argKeyFragment (hook_name \<lparr>hook_name = ''useB'', hook_key = ''b''\<rparr>) args) \<or>
   (\<exists>tx callee args.
      twoDeclarations = ExpressionStatement (Node tx (CallExpression callee args)) \<and>
      calleeName callee = Some (hook_name \<lparr>hook_name = ''useB'', hook_key = ''b''\<rparr>) \<and>
      hook_key \<lparr>hook_name = ''useB'', hook_key = ''b''\<rparr> =
        argKeyFragment (hook_name \<lparr>hook_name = ''useB'', hook_key = ''b''\<rparr>) args)"
proof -
  have "\<lparr>hook_name = ''useB'', hook_key = ''b''\<rparr> \<in> set (statementHookCalls twoDeclarations)"
    by code_simp
  then show ?thesis by (rule binding_key_of_call_site)
qed

text \<open>
  C4. For every function with a non-empty hook-call list, if a name of its custom hooks
  is absent from the hook-name set of the module (it is neither declared nor imported
  by a top-level statement; \<open>seenHooks\<close> after the scan is this set), the output holds
  the recording call of the function in this form: the signature identifier of the
  function called with the name of the function, the key, \<open>true\<close>, and, only when the list
  is not empty, the function returning the custom hooks that are in the hook-name set;
  that list omits the name.
\<close>

theorem unresolved_custom_hook_forces_reset:
  assumes "transform sf = Inr out"
    and "i < length (statements sf)"
    and "definedFunction (statements sf ! i) j = Some (t, fnNode)"
    and "getHookCallsSignature fnNode = Some sg"
    and "h \<in> set (sig_customHooks sg)"
    and "h \<notin> hookNames sf"
  shows "recordingCall t (signatureId sf i j) (sig_key sg) True
           (filter (\<lambda>n. n \<in> hookNames sf) (sig_customHooks sg)) \<in> set out \<and>
         h \<notin> set (filter (\<lambda>n. n \<in> hookNames sf) (sig_customHooks sg))"
proof -
  have fr: "(resetComment sf i \<or> (\<exists>n\<in>set (sig_customHooks sg). n \<notin> hookNames sf)) = True"
    using assms(5,6) by blast
  have "recordingCallOf sf i j t sg \<in> set out"
    using assms(1-4) by (rule emitted_recordingCall)
  then have "recordingCall t (signatureId sf i j) (sig_key sg) True
           (filter (\<lambda>n. n \<in> hookNames sf) (sig_customHooks sg)) \<in> set out"
    unfolding fr .
  moreover have "h \<notin> set (filter (\<lambda>n. n \<in> hookNames sf) (sig_customHooks sg))"
    using assms(6) by simp
  ultimately show ?thesis by (rule conjI)
qed

theorem unresolved_custom_hook_forces_reset_witness:
  "transform panelModule = Inr panelOutput \<and>
   signatureIndex panelModule 0 0 = 0 \<and>
   filter (\<lambda>n. n \<in> hookNames panelModule) [''useTheme''] = [] \<and>
   recordingCall ''Panel'' (signatureId panelModule 0 0) ''useTheme{}'' True
     (filter (\<lambda>n. n \<in> hookNames panelModule) [''useTheme'']) \<in> set panelOutput \<and>
   ''useTheme'' \<notin> set (filter (\<lambda>n. n \<in> hookNames panelModule) [''useTheme''])"
proof -
  have t: "transform panelModule = Inr panelOutput"
    by code_simp
  have i: "0 < length (statements panelModule)" by code_simp
  have d: "definedFunction (statements panelModule ! 0) 0 = Some (''Panel'', Declaration panelDecl)"
    by code_simp
  have g: "getHookCallsSignature (Declaration panelDecl) =
      Some \<lparr>sig_key = ''useTheme{}'', sig_customHooks = [''useTheme'']\<rparr>"
    by code_simp
  have m: "''useTheme'' \<in> set (sig_customHooks
      \<lparr>sig_key = ''useTheme{}'', sig_customHooks = [''useTheme'']\<rparr>)"
    by simp
  have h: "''useTheme'' \<notin> hookNames panelModule" by code_simp
  have n: "signatureIndex panelModule 0 0 = 0" by code_simp
  have f: "filter (\<lambda>n. n \<in> hookNames panelModule) [''useTheme''] = []" by code_simp
  show ?thesis
    using unresolved_custom_hook_forces_reset [OF t i d g m h] t n f
    by (simp only: hook_calls_signature.select_convs simp_thms)
qed

text \<open>
  C5. Take a function body and a direct call of \<open>useState\<close> (or of \<open>useReducer\<close>) in
  it, an expression statement or the initializer of a declaration. Changing only the
  source text of its first argument (of its second argument, for \<open>useReducer\<close>)
  changes the key of the function: the text stands in parentheses after the binding key
  of the call site.
\<close>

theorem state_argument_changes_key:
  assumes "blockBody fnNode = Some (pre @ [s] @ post)"
    and "blockBody fnNode' = Some (pre @ [s'] @ post)"
    and "(s = ExpressionStatement call \<and> s' = ExpressionStatement call') \<or>
         (s = VariableStatement m fl (ds1 @ [VariableDeclaration nm ty (Some call)] @ ds2) \<and>
          s' = VariableStatement m fl (ds1 @ [VariableDeclaration nm ty (Some call')] @ ds2))"
    and "call = Node tx (CallExpression callee args)"
    and "call' = Node tx' (CallExpression callee (args[k := a]))"
    and "(calleeName callee = Some ''useState'' \<and> k = 0) \<or>
         (calleeName callee = Some ''useReducer'' \<and> k = 1)"
    and "k < length args"
    and "getText a \<noteq> getText (args ! k)"
  shows "\<exists>sg sg'. getHookCallsSignature fnNode = Some sg \<and>
           getHookCallsSignature fnNode' = Some sg' \<and> sig_key sg \<noteq> sig_key sg'"
proof -
  obtain n where n: "calleeName callee = Some n" "isHookName n"
      "argKeyFragment n args = ''('' @ getText (args ! k) @ '')''"
      "argKeyFragment n (args[k := a]) = ''('' @ getText a @ '')''"
    using assms(6,7) by (auto simp: argKeyFragment_def isHookName_def isUpper_def)
  obtain A B bk where
    s: "statementHookCalls s =
          A @ [\<lparr>hook_name = n, hook_key = bk @ ''('' @ getText (args ! k) @ '')''\<rparr>] @ B"
    and s': "statementHookCalls s' =
          A @ [\<lparr>hook_name = n, hook_key = bk @ ''('' @ getText a @ '')''\<rparr>] @ B"
    using assms(3)
  proof
    assume "s = ExpressionStatement call \<and> s' = ExpressionStatement call'"
    then show ?thesis
      using that [of "[]" "[]" "[]"] statementHookCalls_expression [OF n(1,2)] n(3,4) assms(4,5)
      by simp
  next
    assume "s = VariableStatement m fl (ds1 @ [VariableDeclaration nm ty (Some call)] @ ds2) \<and>
          s' = VariableStatement m fl (ds1 @ [VariableDeclaration nm ty (Some call')] @ ds2)"
    then show ?thesis
      using that [of "concat (map declarationHookCalls ds1)" "getText nm"
          "concat (map declarationHookCalls ds2)"]
        statementHookCalls_declaration [OF n(1,2)] n(3,4) assms(4,5)
      by simp
  qed
  let ?c = "\<lparr>hook_name = n, hook_key = bk @ ''('' @ getText (args ! k) @ '')''\<rparr>"
  let ?c' = "\<lparr>hook_name = n, hook_key = bk @ ''('' @ getText a @ '')''\<rparr>"
  let ?pre = "concat (map statementHookCalls pre) @ A"
  let ?post = "B @ concat (map statementHookCalls post)"
  have b: "bodyHookCalls fnNode = ?pre @ [?c] @ ?post"
    using bodyHookCalls_middle [OF assms(1)] s by simp
  have b': "bodyHookCalls fnNode' = ?pre @ [?c'] @ ?post"
    using bodyHookCalls_middle [OF assms(2)] s' by simp
  have "hookCallKey ?c \<noteq> hookCallKey ?c'"
    using assms(8) by (simp add: hookCallKey_def)
  then show ?thesis
    using key_middle [OF b] key_middle [OF b'] by simp
qed

theorem state_argument_changes_key_witness:
  "\<exists>sg sg'.
     getHookCallsSignature (Declaration (FunctionDeclaration ''()'' (Some ''Counter'')
        (Some ([] @ [useStateStatement (Node ''0'' OtherExpression)] @ counterRest)))) = Some sg \<and>
     getHookCallsSignature (Declaration (FunctionDeclaration ''()'' (Some ''Counter'')
        (Some ([] @ [useStateStatement (Node ''1'' OtherExpression)] @ counterRest)))) = Some sg' \<and>
     sig_key sg \<noteq> sig_key sg'"
proof -
  let ?callee = "identifierNode ''useState''"
  let ?args = "[Node ''0'' OtherExpression]"
  let ?nm = "Node ''[n,setN]'' BindingPattern"
  have a: "blockBody (Declaration (FunctionDeclaration ''()'' (Some ''Counter'')
        (Some ([] @ [useStateStatement (Node ''0'' OtherExpression)] @ counterRest)))) =
      Some ([] @ [useStateStatement (Node ''0'' OtherExpression)] @ counterRest)"
    by simp
  have b: "blockBody (Declaration (FunctionDeclaration ''()'' (Some ''Counter'')
        (Some ([] @ [useStateStatement (Node ''1'' OtherExpression)] @ counterRest)))) =
      Some ([] @ [useStateStatement (Node ''1'' OtherExpression)] @ counterRest)"
    by simp
  have c: "(useStateStatement (Node ''0'' OtherExpression) =
              ExpressionStatement (Node ''useState(0)'' (CallExpression ?callee ?args)) \<and>
            useStateStatement (Node ''1'' OtherExpression) =
              ExpressionStatement
                (Node ''useState(1)'' (CallExpression ?callee (?args[0 := Node ''1'' OtherExpression])))) \<or>
           (useStateStatement (Node ''0'' OtherExpression) =
              VariableStatement [] ConstFlag
                ([] @ [VariableDeclaration ?nm []
                   (Some (Node ''useState(0)'' (CallExpression ?callee ?args)))] @ []) \<and>
            useStateStatement (Node ''1'' OtherExpression) =
              VariableStatement [] ConstFlag
                ([] @ [VariableDeclaration ?nm []
                   (Some (Node ''useState(1)''
                      (CallExpression ?callee (?args[0 := Node ''1'' OtherExpression]))))] @ []))"
    by (simp add: useStateStatement_def)
  have d: "(calleeName ?callee = Some ''useState'' \<and> (0::nat) = 0) \<or>
           (calleeName ?callee = Some ''useReducer'' \<and> (0::nat) = 1)"
    by (simp add: identifierNode_def)
  have e: "0 < length ?args" by simp
  have f: "getText (Node ''1'' OtherExpression) \<noteq> getText (?args ! 0)" by simp
  show ?thesis
    by (rule state_argument_changes_key [OF a b c refl refl d e f])
qed

text \<open>
  C6, as stated: swapping two hook call sites of a function body always changes the
  key. The entry of a call site holds its hook name, binding key and argument fragment
  only: \<^verbatim>\<open>useEffect(f)\<close> and \<^verbatim>\<open>useEffect(g)\<close> are different statements with the
  same entry, and swapping them leaves the key as it is.
\<close>

theorem swapped_effects_counterexample:
  "effectF \<noteq> effectG \<and>
   getHookCallsSignature (page [effectF, effectG]) =
     Some \<lparr>sig_key = ''useEffect{}'' @ [CHR 0x0A] @ ''useEffect{}'', sig_customHooks = []\<rparr> \<and>
   getHookCallsSignature (page [effectG, effectF]) =
     Some \<lparr>sig_key = ''useEffect{}'' @ [CHR 0x0A] @ ''useEffect{}'', sig_customHooks = []\<rparr>"
  by code_simp

text \<open>
  C6, amended: the key is the entries of the call sites joined by line breaks in source
  order; swapping two call sites (with any call sites before, between and after them)
  changes the key when the entries of the two differ and neither entry, followed by a
  line break, is the beginning of the other. An entry may hold line breaks, as the
  entry of a call whose state argument runs over several lines does.
\<close>

theorem swapping_calls_changes_key:
  assumes "bodyHookCalls fnNode = pre @ [x] @ mid @ [y] @ post"
    and "bodyHookCalls fnNode' = pre @ [y] @ mid @ [x] @ post"
    and "hookCallKey x \<noteq> hookCallKey y"
    and "\<not> prefix (hookCallKey x @ lineBreak) (hookCallKey y)"
    and "\<not> prefix (hookCallKey y @ lineBreak) (hookCallKey x)"
  shows "\<exists>sg sg'. getHookCallsSignature fnNode = Some sg \<and>
           getHookCallsSignature fnNode' = Some sg' \<and> sig_key sg \<noteq> sig_key sg'"
proof -
  let ?P = "concat (map (\<lambda>a. a @ lineBreak) (map hookCallKey pre))"
  obtain r where r: "concat (map (\<lambda>b. lineBreak @ b) (map hookCallKey (mid @ [y] @ post))) =
      CHR 0x0A # r"
    using concat_lineBreak_nonempty [of "map hookCallKey (mid @ [y] @ post)"] by auto
  obtain r' where r': "concat (map (\<lambda>b. lineBreak @ b) (map hookCallKey (mid @ [x] @ post))) =
      CHR 0x0A # r'"
    using concat_lineBreak_nonempty [of "map hookCallKey (mid @ [x] @ post)"] by auto
  obtain sg where sg: "getHookCallsSignature fnNode = Some sg"
      "sig_key sg = ?P @ hookCallKey x @ CHR 0x0A # r"
    using key_middle [of fnNode pre x "mid @ [y] @ post"] assms(1) r by simp
  obtain sg' where sg': "getHookCallsSignature fnNode' = Some sg'"
      "sig_key sg' = ?P @ hookCallKey y @ CHR 0x0A # r'"
    using key_middle [of fnNode' pre y "mid @ [x] @ post"] assms(2) r' by simp
  have "sig_key sg \<noteq> sig_key sg'"
  proof
    assume "sig_key sg = sig_key sg'"
    then have "hookCallKey x @ CHR 0x0A # r = hookCallKey y @ CHR 0x0A # r'"
      using sg(2) sg'(2) by simp
    then show False
      using append_lineBreak_eq assms(3,4,5) by blast
  qed
  then show ?thesis using sg(1) sg'(1) by blast
qed

theorem swapping_calls_changes_key_witness:
  "getHookCallsSignature (page [reducerStatement, callA]) =
     Some \<lparr>sig_key = ''useReducer{[s, d]({'' @ lineBreak @ ''count: 0'' @ lineBreak @ ''})}'' @
                      lineBreak @ ''useA{}'',
           sig_customHooks = [''useA'']\<rparr> \<and>
   getHookCallsSignature (page [callA, reducerStatement]) =
     Some \<lparr>sig_key = ''useA{}'' @ lineBreak @
                      ''useReducer{[s, d]({'' @ lineBreak @ ''count: 0'' @ lineBreak @ ''})}'',
           sig_customHooks = [''useA'']\<rparr> \<and>
   (\<exists>sg sg'. getHookCallsSignature (page [reducerStatement, callA]) = Some sg \<and>
      getHookCallsSignature (page [callA, reducerStatement]) = Some sg' \<and>
      sig_key sg \<noteq> sig_key sg')"
proof -
  let ?x = "\<lparr>hook_name = ''useReducer'',
             hook_key = ''[s, d]({'' @ lineBreak @ ''count: 0'' @ lineBreak @ ''})''\<rparr>"
  let ?y = "\<lparr>hook_name = ''useA'', hook_key = []\<rparr>"
  have a: "bodyHookCalls (page [reducerStatement, callA]) = [] @ [?x] @ [] @ [?y] @ []"
    by code_simp
  have b: "bodyHookCalls (page [callA, reducerStatement]) = [] @ [?y] @ [] @ [?x] @ []"
    by code_simp
  have c: "hookCallKey ?x \<noteq> hookCallKey ?y" by code_simp
  have d: "\<not> prefix (hookCallKey ?x @ lineBreak) (hookCallKey ?y)" by code_simp
  have e: "\<not> prefix (hookCallKey ?y @ lineBreak) (hookCallKey ?x)" by code_simp
  have k: "getHookCallsSignature (page [reducerStatement, callA]) =
     Some \<lparr>sig_key = ''useReducer{[s, d]({'' @ lineBreak @ ''count: 0'' @ lineBreak @ ''})}'' @
                      lineBreak @ ''useA{}'',
           sig_customHooks = [''useA'']\<rparr>"
    by code_simp
  have k': "getHookCallsSignature (page [callA, reducerStatement]) =
     Some \<lparr>sig_key = ''useA{}'' @ lineBreak @
                      ''useReducer{[s, d]({'' @ lineBreak @ ''count: 0'' @ lineBreak @ ''})}'',
           sig_customHooks = [''useA'']\<rparr>"
    by code_simp
  show ?thesis
    by (intro conjI k k' swapping_calls_changes_key [OF a b c d e])
qed

text \<open>
  C7. For every signed function, if a comment range attached before its defining
  top-level statement contains the text \<open>@refresh reset\<close> (anywhere in it), the
  recording call passes forceReset = true as its third argument, whatever the custom
  hooks resolve to.
\<close>

theorem refresh_reset_comment_forces_reset:
  assumes "transform sf = Inr out"
    and "i < length (statements sf)"
    and "definedFunction (statements sf ! i) j = Some (t, fnNode)"
    and "getHookCallsSignature fnNode = Some sg"
    and "c \<in> set (leadingCommentRanges sf i)"
    and "c = p @ ''@refresh reset'' @ q"
  shows "\<exists>sigId hooks. sign_s t sigId (sig_key sg) True hooks \<in> set out \<and>
           sign_s t sigId (sig_key sg) True hooks =
             createExpressionStatement (createCall sigId
               ([createIdentifier t, createStringLiteral (sig_key sg), createTrue] @
                (if hooks = [] then [] else [getCustomHooks hooks])))"
proof -
  have "stringIncludes c ''@refresh reset''"
    using assms(6) stringIncludes_iff by blast
  then have "filter (\<lambda>c. stringIncludes c ''@refresh reset'') (leadingCommentRanges sf i) \<noteq> []"
    using assms(5) by (auto simp: filter_empty_conv)
  then have "forceResetComment sf (Some i)"
    by (simp add: forceResetComment_def)
  then obtain sigId hooks where "sign_s t sigId (sig_key sg) True hooks \<in> set out"
    using emitted_record [OF assms(1-4)] by auto
  moreover have "sign_s t sigId (sig_key sg) True hooks =
             createExpressionStatement (createCall sigId
               ([createIdentifier t, createStringLiteral (sig_key sg), createTrue] @
                (if hooks = [] then [] else [getCustomHooks hooks])))"
    by (simp add: sign_s_def)
  ultimately show ?thesis by blast
qed

theorem refresh_reset_comment_forces_reset_witness:
  "transform formModule =
     Inr [signatureDeclarations [createUniqueName ''_s'' 0],
          VariableStatement [] ConstFlag
            [VariableDeclaration (identifierNode ''Form'') []
               (Some (createFunctionExpression ''()''
                  (signedBlock (createUniqueName ''_s'' 0)
                     [VariableStatement [] ConstFlag
                        [VariableDeclaration (Node ''[v, setV]'' BindingPattern) []
                           (Some (Node ''useState(false)''
                              (CallExpression (identifierNode ''useState'')
                                 [Node ''false'' OtherExpression])))]])))],
          createExpressionStatement (createCall (createUniqueName ''_s'' 0)
            [createIdentifier ''Form'', createStringLiteral ''useState{[v, setV](false)}'',
             createTrue]),
          registration (identifierNode ''Form'')] \<and>
   (\<exists>sigId hooks. sign_s ''Form'' sigId ''useState{[v, setV](false)}'' True hooks \<in>
       set [signatureDeclarations [createUniqueName ''_s'' 0],
          VariableStatement [] ConstFlag
            [VariableDeclaration (identifierNode ''Form'') []
               (Some (createFunctionExpression ''()''
                  (signedBlock (createUniqueName ''_s'' 0)
                     [VariableStatement [] ConstFlag
                        [VariableDeclaration (Node ''[v, setV]'' BindingPattern) []
                           (Some (Node ''useState(false)''
                              (CallExpression (identifierNode ''useState'')
                                 [Node ''false'' OtherExpression])))]])))],
          createExpressionStatement (createCall (createUniqueName ''_s'' 0)
            [createIdentifier ''Form'', createStringLiteral ''useState{[v, setV](false)}'',
             createTrue]),
          registration (identifierNode ''Form'')] \<and>
      sign_s ''Form'' sigId ''useState{[v, setV](false)}'' True hooks =
        createExpressionStatement (createCall sigId
          ([createIdentifier ''Form'', createStringLiteral ''useState{[v, setV](false)}'',
            createTrue] @ (if hooks = [] then [] else [getCustomHooks hooks]))))"
proof -
  have t: "transform formModule =
     Inr [signatureDeclarations [createUniqueName ''_s'' 0],
          VariableStatement [] ConstFlag
            [VariableDeclaration (identifierNode ''Form'') []
               (Some (createFunctionExpression ''()''
                  (signedBlock (createUniqueName ''_s'' 0)
                     [VariableStatement [] ConstFlag
                        [VariableDeclaration (Node ''[v, setV]'' BindingPattern) []
                           (Some (Node ''useState(false)''
                              (CallExpression (identifierNode ''useState'')
                                 [Node ''false'' OtherExpression])))]])))],
          createExpressionStatement (createCall (createUniqueName ''_s'' 0)
            [createIdentifier ''Form'', createStringLiteral ''useState{[v, setV](false)}'',
             createTrue]),
          registration (identifierNode ''Form'')]"
    by code_simp
  have i: "0 < length (statements formModule)" by code_simp
  have d: "definedFunction (statements formModule ! 0) 0 =
      Some (''Form'', Initializer formInitializer)"
    by code_simp
  have g: "getHookCallsSignature (Initializer formInitializer) =
      Some \<lparr>sig_key = ''useState{[v, setV](false)}'', sig_customHooks = []\<rparr>"
    by code_simp
  have c: "''// @refresh reset'' \<in> set (leadingCommentRanges formModule 0)" by code_simp
  have e: "''// @refresh reset'' = ''// '' @ ''@refresh reset'' @ []" by simp
  show ?thesis
    using refresh_reset_comment_forces_reset [OF t i d g c e] t by simp
qed

text \<open>
  C8. The output ends with the registration calls, after the (rewritten) original
  statements: one call for every top-level function declaration, and for every
  declaration of a top-level variable statement that binds an identifier to a function
  expression or an arrow function, whose name starts with an uppercase ASCII letter
  (\<open>statementComponents\<close> lists them), in that order and for nothing else. Each call
  is \<open>$RefreshReg$\<close> applied to that identifier and to the string literal of its name.
\<close>

theorem registration_calls:
  assumes "transform sf = Inr out"
  shows "\<exists>pre blocks.
           out = pre @ concat blocks @
             map (\<lambda>n. createExpressionStatement
                        (createCall (createIdentifier ''$RefreshReg$'')
                           [n, createStringLiteralFromNode n]))
                 (concat (map statementComponents (statements sf))) \<and>
           (pre = [] \<or> pre = [signatureDeclarations (signatures (scan sf))]) \<and>
           length blocks = length (statements sf) \<and>
           (\<forall>i<length (statements sf).
              rewriteStatement sf (scan sf) (Some i, statements sf ! i) = Inr (blocks ! i)) \<and>
           (\<forall>n\<in>set (concat (map statementComponents (statements sf))).
              \<exists>t. identifierText n = Some t \<and> isComponentishName t \<and>
                  createStringLiteralFromNode n = createStringLiteral t)"
proof -
  obtain blocks where blocks: "length blocks = length (statements sf)"
      "out = (if signatures (scan sf) \<noteq> []
                  then [signatureDeclarations (signatures (scan sf))] else []) @
                 concat blocks @ map registration (components (scan sf))"
      "\<forall>i<length (statements sf).
              rewriteStatement sf (scan sf) (Some i, statements sf ! i) = Inr (blocks ! i)"
    using transform_blocks [OF assms] by blast
  have reg: "registration = (\<lambda>n. createExpressionStatement
                        (createCall (createIdentifier ''$RefreshReg$'')
                           [n, createStringLiteralFromNode n]))"
    by (simp add: registration_def refreshReg_def fun_eq_iff)
  have ids: "\<forall>n\<in>set (concat (map statementComponents (statements sf))).
              \<exists>t. identifierText n = Some t \<and> isComponentishName t \<and>
                  createStringLiteralFromNode n = createStringLiteral t"
    using statementComponents_identifier by auto
  let ?pre = "if signatures (scan sf) \<noteq> []
                  then [signatureDeclarations (signatures (scan sf))] else []"
  have "out = ?pre @ concat blocks @
             map (\<lambda>n. createExpressionStatement
                        (createCall (createIdentifier ''$RefreshReg$'')
                           [n, createStringLiteralFromNode n]))
                 (concat (map statementComponents (statements sf)))"
    using blocks(2) by (simp add: components_scan reg)
  moreover have "?pre = [] \<or> ?pre = [signatureDeclarations (signatures (scan sf))]"
    by simp
  ultimately show ?thesis using blocks(1,3) ids by blast
qed

theorem registration_calls_witness:
  "concat (map statementComponents (statements appModule)) = [identifierNode ''App''] \<and>
   (\<exists>pre blocks.
       [signatureDeclarations [createUniqueName ''_s'' 0],
          VariableStatement [] ConstFlag
            [VariableDeclaration (identifierNode ''App'') []
               (Some (createArrowFunction ''()''
                  (signedBlock (createUniqueName ''_s'' 0)
                     [VariableStatement [] ConstFlag
                        [VariableDeclaration (identifierNode ''data'') []
                           (Some (Node ''useData()''
                              (CallExpression (identifierNode ''useData'') [])))],
                      ReturnStatement (Some (identifierNode ''data''))])))],
          sign_s ''App'' (createUniqueName ''_s'' 0) ''useData{data}'' False [''useData''],
          useDataDecl,
          createExpressionStatement
            (createCall (createIdentifier ''$RefreshReg$'')
               [identifierNode ''App'', createStringLiteral ''App''])] =
         pre @ concat blocks @
             map (\<lambda>n. createExpressionStatement
                        (createCall (createIdentifier ''$RefreshReg$'')
                           [n, createStringLiteralFromNode n]))
                 (concat (map statementComponents (statements appModule))) \<and>
           (pre = [] \<or> pre = [signatureDeclarations (signatures (scan appModule))]) \<and>
           length blocks = length (statements appModule) \<and>
           (\<forall>i<length (statements appModule).
              rewriteStatement appModule (scan appModule) (Some i, statements appModule ! i) =
                Inr (blocks ! i)) \<and>
           (\<forall>n\<in>set (concat (map statementComponents (statements appModule))).
              \<exists>t. identifierText n = Some t \<and> isComponentishName t \<and>
                  createStringLiteralFromNode n = createStringLiteral t))"
proof -
  have t: "transform appModule =
     Inr [signatureDeclarations [createUniqueName ''_s'' 0],
          VariableStatement [] ConstFlag
            [VariableDeclaration (identifierNode ''App'') []
               (Some (createArrowFunction ''()''
                  (signedBlock (createUniqueName ''_s'' 0)
                     [VariableStatement [] ConstFlag
                        [VariableDeclaration (identifierNode ''data'') []
                           (Some (Node ''useData()''
                              (CallExpression (identifierNode ''useData'') [])))],
                      ReturnStatement (Some (identifierNode ''data''))])))],
          sign_s ''App'' (createUniqueName ''_s'' 0) ''useData{data}'' False [''useData''],
          useDataDecl,
          createExpressionStatement
            (createCall (createIdentifier ''$RefreshReg$'')
               [identifierNode ''App'', createStringLiteral ''App''])]"
    by code_simp
  have c: "concat (map statementComponents (statements appModule)) = [identifierNode ''App'']"
    by code_simp
  show ?thesis
    by (intro conjI c registration_calls [OF t])
qed






end
